theory Spec2Isabelle
  imports Main
begin

section \<open>Data model\<close>

text \<open>
  The generated API types of package \<open>client\<close> (\<open>Policy\<close>, \<open>Compliance\<close>,
  \<open>EnrichmentRequest\<close>, \<open>EnrichmentResponse\<close>, \<open>Error\<close>) are declared outside
  \<open>src/\<close>. They are modelled with exactly the fields the source reads:
  \<open>policy.PolicyRuleId\<close>, \<open>policy.PolicyEngineName\<close>, \<open>req.Policy\<close>,
  \<open>resp.Compliance\<close>, \<open>JSONDefault.Code\<close> and \<open>JSONDefault.Message\<close>.
  The struct \<open>Compliance\<close> is a type parameter \<open>'c\<close> of class \<open>zero\<close>: the source
  only moves such values around and builds the zero value \<open>Compliance{}\<close>, written
  \<open>0\<close> below.
\<close>

record Policy =
  PolicyRuleId :: string
  PolicyEngineName :: string

record EnrichmentRequest =
  Policy :: Policy

record 'c EnrichmentResponse =
  Compliance :: 'c

record Error =
  Code :: int
  Message :: string

text \<open>
  Go error values. \<open>Errorf fmt args\<close> is the value of \<open>fmt.Errorf(fmt, args...)\<close>,
  kept as the format string and its arguments (\<open>W\<close> is the argument of a \<open>%w\<close>
  verb, the wrapped error). \<open>External msg\<close> is an error value made by code outside
  \<open>src/\<close> (the HTTP client, the response parser, the applier).
\<close>

datatype error = External string | Errorf string "arg list"
  and arg = D int | S string | W error

text \<open>
  What one exchange with the remote service gives \<open>callEnrich\<close>:
  \<open>PostV1Enrich\<close> fails, or \<open>ParsePostV1EnrichResponse\<close> fails, or the parsed
  response, of which the source reads \<open>resp.Status\<close>, \<open>JSON200\<close> and \<open>JSONDefault\<close>
  (pointers: \<open>None\<close> is \<open>nil\<close>).
\<close>

record 'c PostV1EnrichResponse =
  Status :: string
  JSON200 :: "'c EnrichmentResponse option"
  JSONDefault :: "Error option"

datatype 'c http_outcome =
    PostFailed error
  | ParseFailed error
  | Parsed "'c PostV1EnrichResponse"

text \<open>Entries written to the \<open>zap\<close> logger: level, message, fields.\<close>

datatype level = DebugLevel | ErrorLevel

datatype zfield = ZString string string | ZError error

type_synonym log_entry = "level \<times> string \<times> zfield list"

subsection \<open>The cache store\<close>

text \<open>
  Modelled from the spec: the Cache Store behind \<open>c.cache\<close>. It is the external
  library \<open>github.com/patrickmn/go-cache\<close>, whose code is not under \<open>src/\<close>. The
  spec (4.1, 3) gives it the contract \<open>Get(key) -> (value, found)\<close> and \<open>Set(key, value)\<close>,
  a configured TTL, entries \<open>(key, value, insertion time)\<close>, and says that expired
  entries behave like absent ones on \<open>Get\<close> and that background reclamation sweeps at
  a fraction of the TTL. The comment of \<open>NewCacheableClient\<close> adds that a TTL of
  \<open>-1\<close> never expires, that durations below one nanosecond mean no expiration, and that
  cleanup happens at half the TTL. Durations and instants are nanosecond counts; the
  64-bit range of \<open>time.Duration\<close> is not modelled.
\<close>

record 'c Item =
  Object :: 'c
  Inserted :: int

record 'c Cache =
  ttl :: int
  cleanupInterval :: int
  items :: "string \<rightharpoonup> 'c Item"

text \<open>\<open>cache.NoExpiration\<close>, the library's constant for the never-expire TTL.\<close>

definition NoExpiration :: int where
  "NoExpiration = - 1"

definition cache_New :: "int \<Rightarrow> int \<Rightarrow> 'c Cache" where
  "cache_New defaultExpiration ci =
     \<lparr>ttl = defaultExpiration, cleanupInterval = ci, items = Map.empty\<rparr>"

definition expired :: "'c Cache \<Rightarrow> int \<Rightarrow> 'c Item \<Rightarrow> bool" where
  "expired c t it \<longleftrightarrow> 1 \<le> ttl c \<and> Inserted it + ttl c < t"

definition cache_Get :: "'c Cache \<Rightarrow> int \<Rightarrow> string \<Rightarrow> 'c option" where
  "cache_Get c t k =
     (case items c k of
        None \<Rightarrow> None
      | Some it \<Rightarrow> if expired c t it then None else Some (Object it))"

text \<open>\<open>Set(k, x, cache.DefaultExpiration)\<close>: the entry takes the store's own TTL.\<close>

definition cache_Set :: "'c Cache \<Rightarrow> int \<Rightarrow> string \<Rightarrow> 'c \<Rightarrow> 'c Cache" where
  "cache_Set c t k x = c\<lparr>items := (items c)(k \<mapsto> \<lparr>Object = x, Inserted = t\<rparr>)\<rparr>"

text \<open>The background sweep; it runs only when the cleanup interval is positive.\<close>

definition DeleteExpired :: "'c Cache \<Rightarrow> int \<Rightarrow> 'c Cache" where
  "DeleteExpired c t =
     (if 0 < cleanupInterval c
      then c\<lparr>items := (\<lambda>k. case items c k of
                               None \<Rightarrow> None
                             | Some it \<Rightarrow> if expired c t it then None else Some it)\<rparr>
      else c)"

subsection \<open>Shared state\<close>

text \<open>
  Everything a \<open>CacheableClient\<close> and its callers share: the store \<open>c.cache\<close>, the
  clock, the requests \<open>c.client\<close> has posted so far (in order), and the entries written
  to the logger. The mutex \<open>c.mu\<close> is part of the concurrent model further down.
\<close>

record 'c world =
  cache :: "'c Cache"
  now :: int
  posted :: "EnrichmentRequest list"
  logged :: "log_entry list"

definition logger_Debug :: "'c world \<Rightarrow> string \<Rightarrow> zfield list \<Rightarrow> 'c world" where
  "logger_Debug w msg fs = w\<lparr>logged := logged w @ [(DebugLevel, msg, fs)]\<rparr>"

definition logger_Error :: "'c world \<Rightarrow> string \<Rightarrow> zfield list \<Rightarrow> 'c world" where
  "logger_Error w msg fs = w\<lparr>logged := logged w @ [(ErrorLevel, msg, fs)]\<rparr>"

text \<open>
  The remote service is any function from the number of requests already posted and
  the request to the outcome of the exchange: it may answer the same request
  differently each time.
\<close>

type_synonym 'c remote = "nat \<Rightarrow> EnrichmentRequest \<Rightarrow> 'c http_outcome"

definition PostV1Enrich ::
  "'c remote \<Rightarrow> 'c world \<Rightarrow> EnrichmentRequest \<Rightarrow> 'c http_outcome \<times> 'c world" where
  "PostV1Enrich remote w req =
     (remote (length (posted w)) req, w\<lparr>posted := posted w @ [req]\<rparr>)"

section \<open>The cacheable client (truthbeam/internal/client/cacheable.go)\<close>

text \<open>
  \<open>NewCacheableClient\<close>, lines 25-41: the store built for a TTL. Go's \<open>ttl / 2\<close>
  truncates towards zero.
\<close>

definition NewCacheableClient :: "int \<Rightarrow> 'c Cache" where
  "NewCacheableClient t =
     (let cleanupInterval =
            (if t = NoExpiration then NoExpiration
             else if t < 0 then - ((- t) div 2) else t div 2)
      in cache_New t cleanupInterval)"

text \<open>
  \<open>callEnrich\<close>, lines 79-105. It returns \<open>(nil, err)\<close> or \<open>(resp, nil)\<close> on every
  path, so the pair is a sum. \<open>callEnrich_resp\<close> is lines 86-104, what is returned for
  each outcome of the exchange.
\<close>

definition callEnrich_resp :: "'c http_outcome \<Rightarrow> error + 'c EnrichmentResponse" where
  "callEnrich_resp out =
     (case out of
        PostFailed err \<Rightarrow> Inl err
      | ParseFailed err \<Rightarrow> Inl err
      | Parsed parsedResp \<Rightarrow>
          (case JSON200 parsedResp of
             Some r \<Rightarrow> Inr r
           | None \<Rightarrow>
              (case JSONDefault parsedResp of
                 Some e \<Rightarrow> Inl (Errorf ''API call failed with status %d: %s''
                                   [D (Code e), S (Message e)])
               | None \<Rightarrow> Inl (Errorf ''unexpected response status: %s''
                                 [S (Status parsedResp)]))))"

definition callEnrich ::
  "'c remote \<Rightarrow> 'c world \<Rightarrow> EnrichmentRequest
     \<Rightarrow> (error + 'c EnrichmentResponse) \<times> 'c world" where
  "callEnrich remote w req =
     (let w1 = logger_Debug w ''calling compass enrich API''
                 [ZString ''policy_rule_id'' (PolicyRuleId (Policy req)),
                  ZString ''policy_engine_name'' (PolicyEngineName (Policy req))];
          (out, w2) = PostV1Enrich remote w1 req
      in (callEnrich_resp out, w2))"

text \<open>
  \<open>Retrieve\<close>, lines 45-77, run by one caller with nobody else touching the shared
  state in between. The result is Go's pair: the value and the error (\<open>None\<close> is
  \<open>nil\<close>).
\<close>

definition Retrieve ::
  "'c remote \<Rightarrow> 'c world \<Rightarrow> Policy \<Rightarrow> (('c::zero) \<times> error option) \<times> 'c world" where
  "Retrieve remote w policy =
     (case cache_Get (cache w) (now w) (PolicyRuleId policy) of
        Some v \<Rightarrow> ((v, None), w)
      | None \<Rightarrow>
         (case cache_Get (cache w) (now w) (PolicyRuleId policy) of
            Some v \<Rightarrow> ((v, None), w)
          | None \<Rightarrow>
             (let req = \<lparr>Policy = policy\<rparr>;
                  (resp, w1) = callEnrich remote w req
              in case resp of
                   Inl err \<Rightarrow>
                     ((0, Some (Errorf ''failed to fetch metadata: %w'' [W err])),
                      logger_Error w1 ''enrichment API call failed''
                        [ZString ''policy_rule_id'' (PolicyRuleId policy),
                         ZString ''policy_engine_name'' (PolicyEngineName policy),
                         ZError err])
                 | Inr r \<Rightarrow>
                     (let compliance = Compliance r
                      in ((compliance, None),
                          w1\<lparr>cache := cache_Set (cache w1) (now w1)
                                         (PolicyRuleId policy) compliance\<rparr>)))))"

section \<open>The variant of the client in src/unnamed/part_000\<close>

text \<open>
  The second copy of the client under \<open>src/\<close>. Its \<open>callEnrich\<close> (lines 76-93) has
  no \<open>JSONDefault\<close> branch and writes no log entry; \<open>fetchMetadata\<close> (lines 65-74) wraps
  the error once more; its \<open>Retrieve\<close> (lines 45-63) does not query the store again
  after \<open>c.mu.Lock()\<close>.
\<close>

definition callEnrich_p0_resp :: "'c http_outcome \<Rightarrow> error + 'c EnrichmentResponse" where
  "callEnrich_p0_resp out =
     (case out of
        PostFailed err \<Rightarrow> Inl err
      | ParseFailed err \<Rightarrow> Inl err
      | Parsed parsedResp \<Rightarrow>
          (case JSON200 parsedResp of
             None \<Rightarrow> Inl (Errorf ''unexpected response status: %s'' [S (Status parsedResp)])
           | Some r \<Rightarrow> Inr r))"

definition callEnrich_p0 ::
  "'c remote \<Rightarrow> 'c world \<Rightarrow> EnrichmentRequest
     \<Rightarrow> (error + 'c EnrichmentResponse) \<times> 'c world" where
  "callEnrich_p0 remote w req =
     (let (out, w1) = PostV1Enrich remote w req in (callEnrich_p0_resp out, w1))"

definition fetchMetadata_p0_resp :: "'c http_outcome \<Rightarrow> ('c::zero) \<times> error option" where
  "fetchMetadata_p0_resp out =
     (case callEnrich_p0_resp out of
        Inl err \<Rightarrow> (0, Some (Errorf ''failed to call metadata API: %w'' [W err]))
      | Inr r \<Rightarrow> (Compliance r, None))"

definition fetchMetadata_p0 ::
  "'c remote \<Rightarrow> 'c world \<Rightarrow> Policy \<Rightarrow> (('c::zero) \<times> error option) \<times> 'c world" where
  "fetchMetadata_p0 remote w policy =
     (let req = \<lparr>Policy = policy\<rparr>;
          (resp, w1) = callEnrich_p0 remote w req
      in case resp of
           Inl err \<Rightarrow> ((0, Some (Errorf ''failed to call metadata API: %w'' [W err])), w1)
         | Inr r \<Rightarrow> ((Compliance r, None), w1))"

definition Retrieve_p0 ::
  "'c remote \<Rightarrow> 'c world \<Rightarrow> Policy \<Rightarrow> (('c::zero) \<times> error option) \<times> 'c world" where
  "Retrieve_p0 remote w policy =
     (case cache_Get (cache w) (now w) (PolicyRuleId policy) of
        Some v \<Rightarrow> ((v, None), w)
      | None \<Rightarrow>
         (let ((compliance, err), w1) = fetchMetadata_p0 remote w policy
          in case err of
               Some e \<Rightarrow> ((0, Some (Errorf ''failed to fetch metadata: %w'' [W e])), w1)
             | None \<Rightarrow>
                 ((compliance, None),
                  w1\<lparr>cache := cache_Set (cache w1) (now w1)
                                 (PolicyRuleId policy) compliance\<rparr>)))"

section \<open>The processor (src/unnamed/part_001)\<close>

text \<open>
  \<open>processLogs\<close>, lines 41-80. A batch \<open>plog.Logs\<close> is the nesting the three loops
  walk: resources, their scopes, their log records (of any type \<open>'r\<close>). The applier is
  not under \<open>src/\<close>; its two operations are parameters, with the signatures of the
  spec (6): \<open>Extract\<close> reads a record and gives the policy, a status and an error;
  \<open>Apply\<close> gives the record as it leaves it and an error.

  Of the processor's fields the model keeps \<open>client\<close>: \<open>newTruthBeamProcessor\<close>
  (lines 26-39) sets it to \<open>nil\<close>, here \<open>None\<close>, and \<open>start\<close> (lines 83-97) stores
  the client, here \<open>Some remote\<close>, the service its requests reach; the client's store
  and the logger are in the shared state. \<open>t.client.Retrieve\<close> on a \<open>nil\<close> client
  dereferences a nil pointer: that panic is the result \<open>None\<close> of the loop body
  \<open>processRecord\<close> (lines 50-75), of the loops and of \<open>processLogs\<close>.
\<close>

record 'c truthBeamProcessor =
  client :: "'c remote option"

definition processRecord ::
  "'c truthBeamProcessor \<Rightarrow> ('r \<Rightarrow> Policy \<times> 's \<times> error option)
     \<Rightarrow> ('r \<Rightarrow> 'c \<Rightarrow> 's \<Rightarrow> 'r \<times> error option)
     \<Rightarrow> 'c world \<Rightarrow> 'r \<Rightarrow> ('r \<times> ('c::zero) world) option" where
  "processRecord t Extract Apply w logRecord =
     (case Extract logRecord of
        (policy, status, Some err) \<Rightarrow>
          Some (logRecord,
                logger_Error w ''Failed to extract evidence from log record'' [ZError err])
      | (policy, status, None) \<Rightarrow>
          (case client t of
             None \<Rightarrow> None
           | Some remote \<Rightarrow>
              (case Retrieve remote w policy of
                 ((enrichment, Some err), w1) \<Rightarrow>
                   Some (logRecord,
                         logger_Error w1 ''failed to get enrichment''
                           [ZString ''policy_id'' (PolicyRuleId policy), ZError err])
               | ((enrichment, None), w1) \<Rightarrow>
                   (case Apply logRecord enrichment status of
                      (logRecord', Some err) \<Rightarrow>
                        Some (logRecord',
                              logger_Error w1 ''failed to apply enrichment''
                                [ZString ''policy_id'' (PolicyRuleId policy), ZError err])
                    | (logRecord', None) \<Rightarrow> Some (logRecord', w1)))))"

text \<open>The loops over \<open>k\<close> (log records), \<open>j\<close> (scopes) and \<open>i\<close> (resources).\<close>

fun loop_k ::
  "('c world \<Rightarrow> 'r \<Rightarrow> ('r \<times> 'c world) option) \<Rightarrow> 'c world \<Rightarrow> 'r list
     \<Rightarrow> ('r list \<times> 'c world) option" where
  "loop_k body w [] = Some ([], w)"
| "loop_k body w (logRecord # logs) =
     (case body w logRecord of
        None \<Rightarrow> None
      | Some (logRecord', w1) \<Rightarrow>
          (case loop_k body w1 logs of
             None \<Rightarrow> None
           | Some (logs', w2) \<Rightarrow> Some (logRecord' # logs', w2)))"

fun loop_j ::
  "('c world \<Rightarrow> 'r \<Rightarrow> ('r \<times> 'c world) option) \<Rightarrow> 'c world \<Rightarrow> 'r list list
     \<Rightarrow> ('r list list \<times> 'c world) option" where
  "loop_j body w [] = Some ([], w)"
| "loop_j body w (ils # ilss) =
     (case loop_k body w ils of
        None \<Rightarrow> None
      | Some (ils', w1) \<Rightarrow>
          (case loop_j body w1 ilss of
             None \<Rightarrow> None
           | Some (ilss', w2) \<Rightarrow> Some (ils' # ilss', w2)))"

fun loop_i ::
  "('c world \<Rightarrow> 'r \<Rightarrow> ('r \<times> 'c world) option) \<Rightarrow> 'c world \<Rightarrow> 'r list list list
     \<Rightarrow> ('r list list list \<times> 'c world) option" where
  "loop_i body w [] = Some ([], w)"
| "loop_i body w (rs # rl) =
     (case loop_j body w rs of
        None \<Rightarrow> None
      | Some (rs', w1) \<Rightarrow>
          (case loop_i body w1 rl of
             None \<Rightarrow> None
           | Some (rl', w2) \<Rightarrow> Some (rs' # rl', w2)))"

definition processLogs ::
  "'c truthBeamProcessor \<Rightarrow> ('r \<Rightarrow> Policy \<times> 's \<times> error option)
     \<Rightarrow> ('r \<Rightarrow> 'c \<Rightarrow> 's \<Rightarrow> 'r \<times> error option)
     \<Rightarrow> 'c world \<Rightarrow> 'r list list list
     \<Rightarrow> (('r list list list \<times> error option) \<times> ('c::zero) world) option" where
  "processLogs t Extract Apply w ld =
     (case loop_i (processRecord t Extract Apply) w ld of
        None \<Rightarrow> None
      | Some (ld', w') \<Rightarrow> Some ((ld', None), w'))"

section \<open>Concurrent callers\<close>

text \<open>
  Callers of \<open>Retrieve\<close> run as threads \<open>0, 1, 2, ...\<close>; thread \<open>t\<close> runs one call,
  for the policy \<open>pol t\<close>. A thread's program counter names the shared-state operation
  it performs next, with the values it holds:
  \<^item> \<open>AtGet1\<close>: the first \<open>c.cache.Get\<close> (cacheable.go line 48, part_000 line 46);
  \<^item> \<open>AtLock\<close>: \<open>c.mu.Lock()\<close> (line 52, part_000 line 50);
  \<^item> \<open>AtGet2\<close>: the second \<open>c.cache.Get\<close> (line 56; part_000 has none);
  \<^item> \<open>AtCall\<close>: the call of \<open>callEnrich\<close> up to the posting of the request (line 62,
    part_000 line 54);
  \<^item> \<open>InFlight out\<close>: the request is posted and the exchange will end in \<open>out\<close>;
  \<^item> \<open>AtSet v\<close>: \<open>c.cache.Set\<close> (line 74, part_000 line 60);
  \<^item> \<open>AtUnlock r\<close>: the deferred \<open>c.mu.Unlock()\<close>, the return values \<open>r\<close> chosen;
  \<^item> \<open>Returned r\<close>: the call has returned \<open>r\<close>.
\<close>

datatype 'c pc =
    AtGet1
  | AtLock
  | AtGet2
  | AtCall
  | InFlight "'c http_outcome"
  | AtSet 'c
  | AtUnlock "'c \<times> error option"
  | Returned "'c \<times> error option"

record 'c system =
  shared :: "'c world"
  mu :: "nat option"
  pcs :: "nat \<Rightarrow> 'c pc"

definition goto :: "'c system \<Rightarrow> nat \<Rightarrow> 'c pc \<Rightarrow> 'c system" where
  "goto s t p = s\<lparr>pcs := (pcs s)(t := p)\<rparr>"

text \<open>One step of thread \<open>t\<close> in cacheable.go. A thread at \<open>AtLock\<close> waits while the
  mutex is held.\<close>

definition Retrieve_step ::
  "'c remote \<Rightarrow> (nat \<Rightarrow> Policy) \<Rightarrow> nat \<Rightarrow> ('c::zero) system \<Rightarrow> 'c system" where
  "Retrieve_step remote pol t s =
     (let w = shared s; policy = pol t in
      case pcs s t of
        AtGet1 \<Rightarrow>
          (case cache_Get (cache w) (now w) (PolicyRuleId policy) of
             Some v \<Rightarrow> goto s t (Returned (v, None))
           | None \<Rightarrow> goto s t AtLock)
      | AtLock \<Rightarrow> (if mu s = None then goto (s\<lparr>mu := Some t\<rparr>) t AtGet2 else s)
      | AtGet2 \<Rightarrow>
          (case cache_Get (cache w) (now w) (PolicyRuleId policy) of
             Some v \<Rightarrow> goto s t (AtUnlock (v, None))
           | None \<Rightarrow> goto s t AtCall)
      | AtCall \<Rightarrow>
          (let w1 = logger_Debug w ''calling compass enrich API''
                      [ZString ''policy_rule_id'' (PolicyRuleId policy),
                       ZString ''policy_engine_name'' (PolicyEngineName policy)];
               (out, w2) = PostV1Enrich remote w1 \<lparr>Policy = policy\<rparr>
           in goto (s\<lparr>shared := w2\<rparr>) t (InFlight out))
      | InFlight out \<Rightarrow>
          (case callEnrich_resp out of
             Inl err \<Rightarrow>
               goto (s\<lparr>shared := logger_Error w ''enrichment API call failed''
                                   [ZString ''policy_rule_id'' (PolicyRuleId policy),
                                    ZString ''policy_engine_name'' (PolicyEngineName policy),
                                    ZError err]\<rparr>)
                 t (AtUnlock (0, Some (Errorf ''failed to fetch metadata: %w'' [W err])))
           | Inr r \<Rightarrow> goto s t (AtSet (Compliance r)))
      | AtSet compliance \<Rightarrow>
          goto (s\<lparr>shared := w\<lparr>cache := cache_Set (cache w) (now w)
                                          (PolicyRuleId policy) compliance\<rparr>\<rparr>)
            t (AtUnlock (compliance, None))
      | AtUnlock r \<Rightarrow> goto (s\<lparr>mu := None\<rparr>) t (Returned r)
      | Returned r \<Rightarrow> s)"

text \<open>One step of thread \<open>t\<close> in part_000: from \<open>AtLock\<close> straight to \<open>AtCall\<close>.\<close>

definition Retrieve_p0_step ::
  "'c remote \<Rightarrow> (nat \<Rightarrow> Policy) \<Rightarrow> nat \<Rightarrow> ('c::zero) system \<Rightarrow> 'c system" where
  "Retrieve_p0_step remote pol t s =
     (let w = shared s; policy = pol t in
      case pcs s t of
        AtGet1 \<Rightarrow>
          (case cache_Get (cache w) (now w) (PolicyRuleId policy) of
             Some v \<Rightarrow> goto s t (Returned (v, None))
           | None \<Rightarrow> goto s t AtLock)
      | AtLock \<Rightarrow> (if mu s = None then goto (s\<lparr>mu := Some t\<rparr>) t AtCall else s)
      | AtGet2 \<Rightarrow> s
      | AtCall \<Rightarrow>
          (let (out, w1) = PostV1Enrich remote w \<lparr>Policy = policy\<rparr>
           in goto (s\<lparr>shared := w1\<rparr>) t (InFlight out))
      | InFlight out \<Rightarrow>
          (case fetchMetadata_p0_resp out of
             (compliance, Some err) \<Rightarrow>
               goto s t (AtUnlock (0, Some (Errorf ''failed to fetch metadata: %w'' [W err])))
           | (compliance, None) \<Rightarrow> goto s t (AtSet compliance))
      | AtSet compliance \<Rightarrow>
          goto (s\<lparr>shared := w\<lparr>cache := cache_Set (cache w) (now w)
                                          (PolicyRuleId policy) compliance\<rparr>\<rparr>)
            t (AtUnlock (compliance, None))
      | AtUnlock r \<Rightarrow> goto (s\<lparr>mu := None\<rparr>) t (Returned r)
      | Returned r \<Rightarrow> s)"

text \<open>
  A schedule is a list of events: a thread takes its next step, the clock advances,
  or the store's background sweep runs. \<open>run\<close> plays a schedule from a state.
\<close>

datatype event = Run nat | Tick nat | Sweep

definition fire :: "(nat \<Rightarrow> 'c system \<Rightarrow> 'c system) \<Rightarrow> 'c system \<Rightarrow> event \<Rightarrow> 'c system" where
  "fire stepf s e =
     (case e of
        Run t \<Rightarrow> stepf t s
      | Tick d \<Rightarrow> s\<lparr>shared := (shared s)\<lparr>now := now (shared s) + int d\<rparr>\<rparr>
      | Sweep \<Rightarrow>
          s\<lparr>shared := (shared s)\<lparr>cache := DeleteExpired (cache (shared s)) (now (shared s))\<rparr>\<rparr>)"

definition run ::
  "(nat \<Rightarrow> 'c system \<Rightarrow> 'c system) \<Rightarrow> event list \<Rightarrow> 'c system \<Rightarrow> 'c system" where
  "run stepf sched s = foldl (fire stepf) s sched"

text \<open>The client as \<open>start\<close> leaves it at instant \<open>t0\<close>, and all callers about to start.\<close>

definition fresh :: "int \<Rightarrow> int \<Rightarrow> 'c world" where
  "fresh t t0 = \<lparr>cache = NewCacheableClient t, now = t0, posted = [], logged = []\<rparr>"

definition init :: "'c world \<Rightarrow> 'c system" where
  "init w = \<lparr>shared = w, mu = None, pcs = (\<lambda>t. AtGet1)\<rparr>"

text \<open>
  The state that the concurrent callers of a client started with TTL \<open>t\<close> at instant
  \<open>t0\<close> reach under a schedule, for each copy of the client.
\<close>

definition callers ::
  "'c remote \<Rightarrow> (nat \<Rightarrow> Policy) \<Rightarrow> int \<Rightarrow> int \<Rightarrow> event list \<Rightarrow> ('c::zero) system" where
  "callers remote pol t t0 sched = run (Retrieve_step remote pol) sched (init (fresh t t0))"

definition callers_p0 ::
  "'c remote \<Rightarrow> (nat \<Rightarrow> Policy) \<Rightarrow> int \<Rightarrow> int \<Rightarrow> event list \<Rightarrow> ('c::zero) system" where
  "callers_p0 remote pol t t0 sched =
     run (Retrieve_p0_step remote pol) sched (init (fresh t t0))"

section \<open>A single caller over time\<close>

text \<open>
  What one caller after another does with the client: a call of \<open>Retrieve\<close>, time
  passing, or a sweep of the store.
\<close>

datatype op = Call Policy | Elapse nat | Janitor

fun session :: "'c remote \<Rightarrow> op list \<Rightarrow> ('c::zero) world \<Rightarrow> 'c world" where
  "session remote [] w = w"
| "session remote (Call policy # ops) w = session remote ops (snd (Retrieve remote w policy))"
| "session remote (Elapse d # ops) w = session remote ops (w\<lparr>now := now w + int d\<rparr>)"
| "session remote (Janitor # ops) w =
     session remote ops (w\<lparr>cache := DeleteExpired (cache w) (now w)\<rparr>)"

section \<open>Notions used to state and prove the properties\<close>

text \<open>
  \<open>critical\<close>: the program points between \<open>c.mu.Lock()\<close> and \<open>c.mu.Unlock()\<close>.
  \<open>fetching\<close>: those from the confirmed miss to the \<open>Set\<close>.
\<close>

definition critical :: "'c pc \<Rightarrow> bool" where
  "critical p =
     (case p of AtGet1 \<Rightarrow> False | AtLock \<Rightarrow> False | Returned r \<Rightarrow> False | _ \<Rightarrow> True)"

definition fetching :: "'c pc \<Rightarrow> bool" where
  "fetching p =
     (case p of AtCall \<Rightarrow> True | InFlight out \<Rightarrow> True | AtSet v \<Rightarrow> True | _ \<Rightarrow> False)"

text \<open>
  \<open>fetch_ok remote w n v\<close>: the \<open>n\<close>-th request posted was answered with a success
  carrying \<open>v\<close>. \<open>stored w k v\<close>: the store holds \<open>v\<close> under key \<open>k\<close>.
  \<open>elapsed sched\<close>: the time that passes during a schedule.
\<close>

definition fetch_ok :: "'c remote \<Rightarrow> 'c world \<Rightarrow> nat \<Rightarrow> 'c \<Rightarrow> bool" where
  "fetch_ok remote w n v \<longleftrightarrow>
     n < length (posted w)
     \<and> callEnrich_resp (remote n (posted w ! n)) = Inr \<lparr>Compliance = v\<rparr>"

definition stored :: "'c world \<Rightarrow> string \<Rightarrow> 'c \<Rightarrow> bool" where
  "stored w k v \<longleftrightarrow> (\<exists>it. items (cache w) k = Some it \<and> Object it = v)"

fun elapsed :: "event list \<Rightarrow> nat" where
  "elapsed [] = 0"
| "elapsed (Tick d # es) = d + elapsed es"
| "elapsed (e # es) = elapsed es"

text \<open>The invariants of the concurrent model.\<close>

definition inv_mu :: "'c system \<Rightarrow> bool" where
  "inv_mu s \<longleftrightarrow> (\<forall>t. critical (pcs s t) \<longrightarrow> mu s = Some t)"

definition never_stale :: "'c system \<Rightarrow> bool" where
  "never_stale s \<longleftrightarrow>
     (\<forall>k it. items (cache (shared s)) k = Some it
        \<longrightarrow> \<not> expired (cache (shared s)) (now (shared s)) it)"

definition inv_miss :: "(nat \<Rightarrow> Policy) \<Rightarrow> 'c system \<Rightarrow> bool" where
  "inv_miss pol s \<longleftrightarrow>
     (\<forall>t. fetching (pcs s t) \<longrightarrow> items (cache (shared s)) (PolicyRuleId (pol t)) = None)"

definition inv_flight :: "'c remote \<Rightarrow> (nat \<Rightarrow> Policy) \<Rightarrow> 'c system \<Rightarrow> bool" where
  "inv_flight remote pol s \<longleftrightarrow>
     (\<forall>t out. pcs s t = InFlight out \<longrightarrow>
        (\<exists>ps. posted (shared s) = ps @ [\<lparr>Policy = pol t\<rparr>]
              \<and> out = remote (length ps) \<lparr>Policy = pol t\<rparr>))"

definition inv_set :: "'c remote \<Rightarrow> (nat \<Rightarrow> Policy) \<Rightarrow> 'c system \<Rightarrow> bool" where
  "inv_set remote pol s \<longleftrightarrow>
     (\<forall>t v. pcs s t = AtSet v \<longrightarrow>
        (\<exists>ps. posted (shared s) = ps @ [\<lparr>Policy = pol t\<rparr>]
              \<and> callEnrich_resp (remote (length ps) \<lparr>Policy = pol t\<rparr>)
                  = Inr \<lparr>Compliance = v\<rparr>))"

definition inv_ok :: "'c remote \<Rightarrow> (nat \<Rightarrow> Policy) \<Rightarrow> 'c system \<Rightarrow> bool" where
  "inv_ok remote pol s \<longleftrightarrow>
     (\<forall>n v. fetch_ok remote (shared s) n v \<longrightarrow>
        stored (shared s) (PolicyRuleId (Policy (posted (shared s) ! n))) v
        \<or> (Suc n = length (posted (shared s))
            \<and> (\<exists>t. pcs s t = InFlight (remote n (posted (shared s) ! n))
                    \<or> pcs s t = AtSet v)))"

definition inv_uniq :: "'c remote \<Rightarrow> 'c system \<Rightarrow> bool" where
  "inv_uniq remote s \<longleftrightarrow>
     (\<forall>m n v v'. fetch_ok remote (shared s) m v \<and> fetch_ok remote (shared s) n v'
         \<and> PolicyRuleId (Policy (posted (shared s) ! m))
             = PolicyRuleId (Policy (posted (shared s) ! n))
        \<longrightarrow> m = n)"

definition inv_ret :: "(nat \<Rightarrow> Policy) \<Rightarrow> 'c system \<Rightarrow> bool" where
  "inv_ret pol s \<longleftrightarrow>
     (\<forall>t v. pcs s t = AtUnlock (v, None) \<or> pcs s t = Returned (v, None)
        \<longrightarrow> stored (shared s) (PolicyRuleId (pol t)) v)"

definition inv_src :: "'c remote \<Rightarrow> 'c system \<Rightarrow> bool" where
  "inv_src remote s \<longleftrightarrow>
     (\<forall>k v. stored (shared s) k v \<longrightarrow>
        (\<exists>n. fetch_ok remote (shared s) n v
             \<and> PolicyRuleId (Policy (posted (shared s) ! n)) = k))"

definition dedup_inv :: "'c remote \<Rightarrow> (nat \<Rightarrow> Policy) \<Rightarrow> 'c system \<Rightarrow> bool" where
  "dedup_inv remote pol s \<longleftrightarrow>
     inv_mu s \<and> inv_miss pol s \<and> inv_flight remote pol s \<and> inv_set remote pol s
     \<and> inv_ok remote pol s \<and> inv_uniq remote s \<and> inv_ret pol s \<and> inv_src remote s"

definition inv_time :: "int \<Rightarrow> int \<Rightarrow> nat \<Rightarrow> 'c system \<Rightarrow> bool" where
  "inv_time T t0 d s \<longleftrightarrow>
     ttl (cache (shared s)) = T \<and> now (shared s) = t0 + int d
     \<and> (\<forall>k it. items (cache (shared s)) k = Some it \<longrightarrow> t0 \<le> Inserted it)"

text \<open>Concrete inputs, for the instances the properties are evaluated at.\<close>

definition demo_policy :: Policy where
  "demo_policy = \<lparr>PolicyRuleId = ''rule-1'', PolicyEngineName = ''opa''\<rparr>"

definition other_engine :: Policy where
  "other_engine = \<lparr>PolicyRuleId = ''rule-1'', PolicyEngineName = ''kyverno''\<rparr>"

definition other_rule :: Policy where
  "other_rule = \<lparr>PolicyRuleId = ''rule-2'', PolicyEngineName = ''opa''\<rparr>"

definition answer :: "nat \<Rightarrow> nat http_outcome" where
  "answer x =
     Parsed \<lparr>Status = ''200 OK'', JSON200 = Some \<lparr>Compliance = x\<rparr>, JSONDefault = None\<rparr>"

text \<open>A remote that always succeeds with 7; one that is down; one whose first exchange
  fails; one whose answer depends on the engine name.\<close>

definition steady_remote :: "nat remote" where
  "steady_remote n req = answer 7"

definition down_remote :: "nat remote" where
  "down_remote n req = PostFailed (External ''connection refused'')"

definition flaky_remote :: "nat remote" where
  "flaky_remote n req =
     (if n = 0 then PostFailed (External ''connection refused'') else answer 7)"

definition engine_remote :: "nat remote" where
  "engine_remote n req =
     answer (if PolicyEngineName (Policy req) = ''opa'' then 1 else 2)"

text \<open>A client with TTL 60 whose store holds 7 under \<open>rule-1\<close>, inserted at instant 0;
  and a client newly started with the given TTL.\<close>

definition warm_world :: "nat world" where
  "warm_world = (fresh 60 0)\<lparr>cache := cache_Set (cache (fresh 60 0)) 0 ''rule-1'' 7\<rparr>"

definition cold_world :: "int \<Rightarrow> nat world" where
  "cold_world t = fresh t 0"

text \<open>Every caller asks for the same policy.\<close>

definition every_caller :: "nat \<Rightarrow> Policy" where
  "every_caller t = demo_policy"

text \<open>A batch of three log records, each a rule identifier and the enrichment applied
  to it so far; extraction fails on a record without rule identifier.\<close>

definition demo_Extract :: "string \<times> nat option \<Rightarrow> Policy \<times> unit \<times> error option" where
  "demo_Extract r =
     (\<lparr>PolicyRuleId = fst r, PolicyEngineName = ''opa''\<rparr>, (),
      if fst r = [] then Some (External ''missing policy attributes'') else None)"

definition demo_Apply ::
  "string \<times> nat option \<Rightarrow> nat \<Rightarrow> unit \<Rightarrow> (string \<times> nat option) \<times> error option" where
  "demo_Apply r c st = ((fst r, Some c), None)"

definition demo_batch :: "(string \<times> nat option) list list list" where
  "demo_batch = [[[(''rule-1'', None), ([], None)], [(''rule-2'', None)]]]"

text \<open>Two callers that both miss on the first \<open>Get\<close>; then thread 0 runs to its return
  (\<open>one_returned\<close>); then thread 1 runs to its return (\<open>two_callers\<close>).\<close>

definition one_returned :: "event list" where
  "one_returned = [Run 0, Run 1, Run 0, Run 0, Run 0, Run 0, Run 0, Run 0]"

definition two_callers :: "event list" where
  "two_callers = one_returned @ [Run 1, Run 1, Run 1, Run 1, Run 1, Run 1]"

text \<open>The same, with five nanoseconds passing before thread 1 goes on.\<close>

definition late_second_caller :: "event list" where
  "late_second_caller = one_returned @ [Tick 5, Run 1, Run 1, Run 1, Run 1, Run 1, Run 1]"

text \<open>Both callers have missed and thread 0 has just posted its request: in part_000
  (\<open>posting_p0\<close>) and in cacheable.go, one step later (\<open>posting\<close>).\<close>

definition posting_p0 :: "event list" where
  "posting_p0 = [Run 0, Run 1, Run 0, Run 0]"

definition posting :: "event list" where
  "posting = posting_p0 @ [Run 0]"

section \<open>Properties\<close>

subsection \<open>The single caller\<close>

lemma callEnrich_eq:
  "callEnrich remote w req =
     (callEnrich_resp (remote (length (posted w)) req),
      w\<lparr>logged := logged w @ [(DebugLevel, ''calling compass enrich API'',
                   [ZString ''policy_rule_id'' (PolicyRuleId (Policy req)),
                    ZString ''policy_engine_name'' (PolicyEngineName (Policy req))])],
        posted := posted w @ [req]\<rparr>)"
  by (simp add: callEnrich_def PostV1Enrich_def logger_Debug_def)

lemma fetchMetadata_p0_eq:
  "fetchMetadata_p0 remote w policy =
     (fetchMetadata_p0_resp (remote (length (posted w)) \<lparr>Policy = policy\<rparr>),
      w\<lparr>posted := posted w @ [\<lparr>Policy = policy\<rparr>]\<rparr>)"
  by (simp add: fetchMetadata_p0_def fetchMetadata_p0_resp_def callEnrich_p0_def
      PostV1Enrich_def split: sum.splits)

lemma Retrieve_hit:
  "cache_Get (cache w) (now w) (PolicyRuleId policy) = Some v
   \<Longrightarrow> Retrieve remote w policy = ((v, None), w)"
  by (simp add: Retrieve_def)

lemma Retrieve_p0_hit:
  "cache_Get (cache w) (now w) (PolicyRuleId policy) = Some v
   \<Longrightarrow> Retrieve_p0 remote w policy = ((v, None), w)"
  by (simp add: Retrieve_p0_def)

lemma Retrieve_miss:
  assumes "cache_Get (cache w) (now w) (PolicyRuleId policy) = None"
  shows "Retrieve remote w policy =
     (let w1 = w\<lparr>logged := logged w @ [(DebugLevel, ''calling compass enrich API'',
                   [ZString ''policy_rule_id'' (PolicyRuleId policy),
                    ZString ''policy_engine_name'' (PolicyEngineName policy)])],
                 posted := posted w @ [\<lparr>Policy = policy\<rparr>]\<rparr>
      in case callEnrich_resp (remote (length (posted w)) \<lparr>Policy = policy\<rparr>) of
           Inl err \<Rightarrow>
             ((0, Some (Errorf ''failed to fetch metadata: %w'' [W err])),
              w1\<lparr>logged := logged w1 @ [(ErrorLevel, ''enrichment API call failed'',
                     [ZString ''policy_rule_id'' (PolicyRuleId policy),
                      ZString ''policy_engine_name'' (PolicyEngineName policy),
                      ZError err])]\<rparr>)
         | Inr r \<Rightarrow>
             ((Compliance r, None),
              w1\<lparr>cache := cache_Set (cache w) (now w) (PolicyRuleId policy) (Compliance r)\<rparr>))"
  using assms
  by (simp add: Retrieve_def callEnrich_eq logger_Error_def Let_def split: sum.splits)

lemma Retrieve_p0_miss:
  assumes "cache_Get (cache w) (now w) (PolicyRuleId policy) = None"
  shows "Retrieve_p0 remote w policy =
     (let w1 = w\<lparr>posted := posted w @ [\<lparr>Policy = policy\<rparr>]\<rparr>
      in case callEnrich_p0_resp (remote (length (posted w)) \<lparr>Policy = policy\<rparr>) of
           Inl err \<Rightarrow>
             ((0, Some (Errorf ''failed to fetch metadata: %w''
                          [W (Errorf ''failed to call metadata API: %w'' [W err])])), w1)
         | Inr r \<Rightarrow>
             ((Compliance r, None),
              w1\<lparr>cache := cache_Set (cache w) (now w) (PolicyRuleId policy) (Compliance r)\<rparr>))"
  using assms
  by (simp add: Retrieve_p0_def fetchMetadata_p0_eq fetchMetadata_p0_resp_def Let_def
      split: sum.splits)

lemma failing_outcome:
  assumes "(\<exists>e. out = PostFailed e) \<or> (\<exists>e. out = ParseFailed e)
           \<or> (\<exists>p. out = Parsed p \<and> JSON200 p = None)"
  shows "\<exists>e. callEnrich_resp out = Inl e" and "\<exists>e. callEnrich_p0_resp out = Inl e"
  using assms
  by (auto simp: callEnrich_resp_def callEnrich_p0_resp_def split: option.splits)

lemmas demo_defs = demo_policy_def other_engine_def other_rule_def answer_def steady_remote_def
  down_remote_def flaky_remote_def engine_remote_def

lemmas store_defs = fresh_def NewCacheableClient_def cache_New_def cache_Get_def cache_Set_def
  expired_def NoExpiration_def DeleteExpired_def

text \<open>
  C3. For every key that is present and unexpired in the store, \<open>Retrieve\<close> returns
  the cached value with no error and posts no request to the remote service: the
  shared state after the call is the one before. This holds for both copies of the
  client, and a concurrent caller in this situation returns at its first step, without
  taking the lock.
\<close>

theorem Retrieve_hit_no_fetch:
  assumes "items (cache w) (PolicyRuleId policy) = Some it"
    and "\<not> expired (cache w) (now w) it"
  shows "Retrieve remote w policy = ((Object it, None), w)
         \<and> Retrieve_p0 remote w policy = ((Object it, None), w)
         \<and> posted (snd (Retrieve remote w policy)) = posted w
         \<and> posted (snd (Retrieve_p0 remote w policy)) = posted w
         \<and> (pcs s t = AtGet1 \<and> shared s = w \<and> pol t = policy \<longrightarrow>
              Retrieve_step remote pol t s = goto s t (Returned (Object it, None))
              \<and> Retrieve_p0_step remote pol t s = goto s t (Returned (Object it, None)))"
  using assms
  by (simp add: Retrieve_def Retrieve_p0_def cache_Get_def Retrieve_step_def
      Retrieve_p0_step_def)

theorem Retrieve_hit_no_fetch_witness:
  "items (cache warm_world) (PolicyRuleId demo_policy) = Some \<lparr>Object = 7, Inserted = 0\<rparr>
   \<and> \<not> expired (cache warm_world) (now warm_world) \<lparr>Object = 7, Inserted = 0\<rparr>
   \<and> Retrieve down_remote warm_world demo_policy = ((7, None), warm_world)
   \<and> Retrieve_p0 down_remote warm_world demo_policy = ((7, None), warm_world)
   \<and> pcs (init warm_world) 0 = AtGet1
   \<and> shared (init warm_world) = warm_world
   \<and> every_caller 0 = demo_policy
   \<and> Retrieve_step down_remote every_caller 0 (init warm_world)
       = goto (init warm_world) 0 (Returned (7, None))
   \<and> Retrieve_p0_step down_remote every_caller 0 (init warm_world)
       = goto (init warm_world) 0 (Returned (7, None))"
proof -
  have h1: "items (cache warm_world) (PolicyRuleId demo_policy)
              = Some \<lparr>Object = 7, Inserted = 0\<rparr>"
    by (simp add: warm_world_def store_defs demo_defs)
  have h2: "\<not> expired (cache warm_world) (now warm_world) \<lparr>Object = 7, Inserted = 0\<rparr>"
    by (simp add: warm_world_def store_defs)
  have h3: "pcs (init warm_world) 0 = AtGet1" "shared (init warm_world) = warm_world"
    "every_caller 0 = demo_policy"
    by (simp_all add: init_def every_caller_def)
  from Retrieve_hit_no_fetch
         [OF h1 h2, where s = "init warm_world" and t = 0 and pol = every_caller
            and remote = down_remote] h1 h2 h3
  show ?thesis by simp
qed

lemma cache_Get_fresh [simp]: "cache_Get (cache (fresh T t0)) t k = None"
  by (simp add: store_defs Let_def)

lemma cache_Retrieve:
  "cache (snd (Retrieve remote w policy)) = cache w
   \<or> (\<exists>v. cache (snd (Retrieve remote w policy))
            = cache_Set (cache w) (now w) (PolicyRuleId policy) v)"
proof (cases "cache_Get (cache w) (now w) (PolicyRuleId policy)")
  case None
  show ?thesis
    by (cases "callEnrich_resp (remote (length (posted w)) \<lparr>Policy = policy\<rparr>)")
       (auto simp: Retrieve_miss [OF None] Let_def)
next
  case (Some v)
  then show ?thesis by (simp add: Retrieve_hit)
qed

lemma cache_Retrieve_p0:
  "cache (snd (Retrieve_p0 remote w policy)) = cache w
   \<or> (\<exists>v. cache (snd (Retrieve_p0 remote w policy))
            = cache_Set (cache w) (now w) (PolicyRuleId policy) v)"
proof (cases "cache_Get (cache w) (now w) (PolicyRuleId policy)")
  case None
  show ?thesis
    by (cases "callEnrich_p0_resp (remote (length (posted w)) \<lparr>Policy = policy\<rparr>)")
       (auto simp: Retrieve_p0_miss [OF None] Let_def)
next
  case (Some v)
  then show ?thesis by (simp add: Retrieve_p0_hit)
qed

lemma now_Retrieve [simp]:
  "now (snd (Retrieve remote w policy)) = now w"
proof (cases "cache_Get (cache w) (now w) (PolicyRuleId policy)")
  case None
  show ?thesis
    by (cases "callEnrich_resp (remote (length (posted w)) \<lparr>Policy = policy\<rparr>)")
       (simp_all add: Retrieve_miss [OF None] Let_def)
next
  case (Some v)
  then show ?thesis by (simp add: Retrieve_hit)
qed

lemma now_Retrieve_p0 [simp]:
  "now (snd (Retrieve_p0 remote w policy)) = now w"
proof (cases "cache_Get (cache w) (now w) (PolicyRuleId policy)")
  case None
  show ?thesis
    by (cases "callEnrich_p0_resp (remote (length (posted w)) \<lparr>Policy = policy\<rparr>)")
       (simp_all add: Retrieve_p0_miss [OF None] Let_def)
next
  case (Some v)
  then show ?thesis by (simp add: Retrieve_p0_hit)
qed

lemma posted_Retrieve_miss:
  assumes "cache_Get (cache w) (now w) (PolicyRuleId policy) = None"
  shows "posted (snd (Retrieve remote w policy)) = posted w @ [\<lparr>Policy = policy\<rparr>]"
    and "posted (snd (Retrieve_p0 remote w policy)) = posted w @ [\<lparr>Policy = policy\<rparr>]"
proof -
  show "posted (snd (Retrieve remote w policy)) = posted w @ [\<lparr>Policy = policy\<rparr>]"
    by (cases "callEnrich_resp (remote (length (posted w)) \<lparr>Policy = policy\<rparr>)")
       (simp_all add: Retrieve_miss [OF assms] Let_def)
  show "posted (snd (Retrieve_p0 remote w policy)) = posted w @ [\<lparr>Policy = policy\<rparr>]"
    by (cases "callEnrich_p0_resp (remote (length (posted w)) \<lparr>Policy = policy\<rparr>)")
       (simp_all add: Retrieve_p0_miss [OF assms] Let_def)
qed

lemma cache_Get_Set_other:
  "k \<noteq> k' \<Longrightarrow> cache_Get (cache_Set c t k' x) t' k = cache_Get c t' k"
  by (simp add: cache_Get_def cache_Set_def expired_def split: option.splits)

lemma cache_Get_Retrieve_other:
  assumes "k \<noteq> PolicyRuleId policy"
  shows "cache_Get (cache (snd (Retrieve remote w policy))) t k = cache_Get (cache w) t k"
    and "cache_Get (cache (snd (Retrieve_p0 remote w policy))) t k = cache_Get (cache w) t k"
  using assms cache_Retrieve [of remote w policy] cache_Retrieve_p0 [of remote w policy]
  by (auto simp: cache_Get_Set_other)

text \<open>
  C4. If the fetch that \<open>Retrieve\<close> performs fails, because the exchange failed in
  transport, or the response could not be parsed, or the response carries no
  \<open>JSON200\<close> body (a structured remote error or an unexpected response), then
  \<open>Retrieve\<close> returns an error. Whenever \<open>Retrieve\<close> returns an error it has
  performed no \<open>Set\<close>: the store after the call is the store before it, and it holds
  no visible entry for the key. Both copies of the client.
\<close>

theorem Retrieve_failure_not_cached:
  "(cache_Get (cache w) (now w) (PolicyRuleId policy) = None
     \<and> ((\<exists>e. remote (length (posted w)) \<lparr>Policy = policy\<rparr> = PostFailed e)
        \<or> (\<exists>e. remote (length (posted w)) \<lparr>Policy = policy\<rparr> = ParseFailed e)
        \<or> (\<exists>p. remote (length (posted w)) \<lparr>Policy = policy\<rparr> = Parsed p \<and> JSON200 p = None))
    \<longrightarrow> snd (fst (Retrieve remote w policy)) \<noteq> None
        \<and> snd (fst (Retrieve_p0 remote w policy)) \<noteq> None)
   \<and> (snd (fst (Retrieve remote w policy)) \<noteq> None
    \<longrightarrow> cache (snd (Retrieve remote w policy)) = cache w
        \<and> cache_Get (cache (snd (Retrieve remote w policy)))
             (now (snd (Retrieve remote w policy))) (PolicyRuleId policy) = None)
   \<and> (snd (fst (Retrieve_p0 remote w policy)) \<noteq> None
    \<longrightarrow> cache (snd (Retrieve_p0 remote w policy)) = cache w
        \<and> cache_Get (cache (snd (Retrieve_p0 remote w policy)))
             (now (snd (Retrieve_p0 remote w policy))) (PolicyRuleId policy) = None)"
proof (intro conjI impI)
  assume a: "cache_Get (cache w) (now w) (PolicyRuleId policy) = None
     \<and> ((\<exists>e. remote (length (posted w)) \<lparr>Policy = policy\<rparr> = PostFailed e)
        \<or> (\<exists>e. remote (length (posted w)) \<lparr>Policy = policy\<rparr> = ParseFailed e)
        \<or> (\<exists>p. remote (length (posted w)) \<lparr>Policy = policy\<rparr> = Parsed p \<and> JSON200 p = None))"
  then obtain e e0 where
    "callEnrich_resp (remote (length (posted w)) \<lparr>Policy = policy\<rparr>) = Inl e"
    "callEnrich_p0_resp (remote (length (posted w)) \<lparr>Policy = policy\<rparr>) = Inl e0"
    using failing_outcome [of "remote (length (posted w)) \<lparr>Policy = policy\<rparr>"] by blast
  with a show "snd (fst (Retrieve remote w policy)) \<noteq> None"
    and "snd (fst (Retrieve_p0 remote w policy)) \<noteq> None"
    by (simp_all add: Retrieve_miss Retrieve_p0_miss Let_def)
next
  assume e: "snd (fst (Retrieve remote w policy)) \<noteq> None"
  then have miss: "cache_Get (cache w) (now w) (PolicyRuleId policy) = None"
    by (cases "cache_Get (cache w) (now w) (PolicyRuleId policy)") (simp_all add: Retrieve_hit)
  with e show "cache (snd (Retrieve remote w policy)) = cache w"
    and "cache_Get (cache (snd (Retrieve remote w policy)))
             (now (snd (Retrieve remote w policy))) (PolicyRuleId policy) = None"
    by (auto simp: Retrieve_miss Let_def split: sum.splits)
next
  assume e: "snd (fst (Retrieve_p0 remote w policy)) \<noteq> None"
  then have miss: "cache_Get (cache w) (now w) (PolicyRuleId policy) = None"
    by (cases "cache_Get (cache w) (now w) (PolicyRuleId policy)") (simp_all add: Retrieve_p0_hit)
  with e show "cache (snd (Retrieve_p0 remote w policy)) = cache w"
    and "cache_Get (cache (snd (Retrieve_p0 remote w policy)))
             (now (snd (Retrieve_p0 remote w policy))) (PolicyRuleId policy) = None"
    by (auto simp: Retrieve_p0_miss Let_def split: sum.splits)
qed

theorem Retrieve_failure_not_cached_witness:
  "cache_Get (cache (cold_world 60)) (now (cold_world 60)) (PolicyRuleId demo_policy) = None
   \<and> down_remote (length (posted (cold_world 60))) \<lparr>Policy = demo_policy\<rparr>
       = PostFailed (External ''connection refused'')
   \<and> snd (fst (Retrieve down_remote (cold_world 60) demo_policy)) \<noteq> None
   \<and> snd (fst (Retrieve_p0 down_remote (cold_world 60) demo_policy)) \<noteq> None
   \<and> cache (snd (Retrieve down_remote (cold_world 60) demo_policy)) = cache (cold_world 60)
   \<and> cache (snd (Retrieve_p0 down_remote (cold_world 60) demo_policy)) = cache (cold_world 60)"
proof -
  have h1: "cache_Get (cache (cold_world 60)) (now (cold_world 60)) (PolicyRuleId demo_policy) = None"
    by (simp add: cold_world_def store_defs)
  have h2: "down_remote (length (posted (cold_world 60))) \<lparr>Policy = demo_policy\<rparr>
       = PostFailed (External ''connection refused'')"
    by (simp add: down_remote_def)
  from Retrieve_failure_not_cached [of "cold_world 60" demo_policy down_remote] h1 h2
  show ?thesis by simp
qed

lemma callEnrich_resp_outcomes:
  "callEnrich_resp (Parsed \<lparr>Status = st, JSON200 = Some r, JSONDefault = d\<rparr>) = Inr r"
  "callEnrich_resp (Parsed \<lparr>Status = st, JSON200 = None, JSONDefault = Some e\<rparr>)
     = Inl (Errorf ''API call failed with status %d: %s'' [D (Code e), S (Message e)])"
  "callEnrich_resp (Parsed \<lparr>Status = st, JSON200 = None, JSONDefault = None\<rparr>)
     = Inl (Errorf ''unexpected response status: %s'' [S st])"
  "callEnrich_resp (PostFailed err) = Inl err"
  "callEnrich_resp (ParseFailed err) = Inl err"
  by (simp_all add: callEnrich_resp_def)

text \<open>
  C5 (evaluation of part_000). In cacheable.go \<open>callEnrich\<close> maps the outcomes
  distinctly (\<open>callEnrich_resp_outcomes\<close> above). In part_000 it has no
  \<open>JSONDefault\<close> branch: a well-formed structured error response, here code 500 with
  message \<open>backend down\<close>, comes back as the error \<open>unexpected response status\<close>,
  which carries neither the remote code nor the remote message.
\<close>

theorem callEnrich_p0_drops_remote_error:
  "callEnrich_p0_resp
     (Parsed \<lparr>Status = ''500 Internal Server Error'', JSON200 = None,
              JSONDefault = Some \<lparr>Code = 500, Message = ''backend down''\<rparr>\<rparr>)
     = Inl (Errorf ''unexpected response status: %s'' [S ''500 Internal Server Error''])
   \<and> callEnrich_resp
     (Parsed \<lparr>Status = ''500 Internal Server Error'', JSON200 = None,
              JSONDefault = Some \<lparr>Code = 500, Message = ''backend down''\<rparr>\<rparr>)
     = Inl (Errorf ''API call failed with status %d: %s'' [D 500, S ''backend down''])"
  by (simp add: callEnrich_p0_resp_def callEnrich_resp_def)

text \<open>
  C6, as stated, fails: the cache key is the rule identifier alone. After a call for
  \<open>rule-1\<close> with engine \<open>opa\<close> has stored the answer 1, a call for \<open>rule-1\<close>
  with engine \<open>kyverno\<close> returns that 1 and posts nothing, although the remote would
  answer 2 for it.
\<close>

theorem Retrieve_key_ignores_engine:
  "PolicyEngineName demo_policy \<noteq> PolicyEngineName other_engine
   \<and> Retrieve engine_remote (cold_world 60) demo_policy
       = ((1, None), snd (Retrieve engine_remote (cold_world 60) demo_policy))
   \<and> callEnrich_resp (engine_remote 1 \<lparr>Policy = other_engine\<rparr>) = Inr \<lparr>Compliance = 2\<rparr>
   \<and> Retrieve engine_remote (snd (Retrieve engine_remote (cold_world 60) demo_policy)) other_engine
       = ((1, None), snd (Retrieve engine_remote (cold_world 60) demo_policy))
   \<and> Retrieve_p0 engine_remote (snd (Retrieve_p0 engine_remote (cold_world 60) demo_policy))
        other_engine
       = ((1, None), snd (Retrieve_p0 engine_remote (cold_world 60) demo_policy))"
  by (simp add: Retrieve_def Retrieve_p0_def callEnrich_eq fetchMetadata_p0_eq
      fetchMetadata_p0_resp_def callEnrich_resp_def callEnrich_p0_resp_def cold_world_def
      store_defs demo_defs logger_Error_def)

text \<open>
  C6, amended. The policy-rule identifier alone is the cache key, with value equality.
  Two policies with the same rule identifier share one entry, whatever their engine
  names: a value cached under the identifier is returned for both. Two policies with
  different rule identifiers address distinct entries: a call for \<open>p\<close> leaves every
  lookup of \<open>q\<close>'s key as it was, at any instant \<open>t\<close>, so when \<open>q\<close> was not cached
  before, the next call for \<open>q\<close> posts its own request.
\<close>

theorem Retrieve_keyed_by_rule_id:
  "(PolicyRuleId q = PolicyRuleId p
     \<and> cache_Get (cache w) (now w) (PolicyRuleId p) = Some v
    \<longrightarrow> Retrieve remote w q = ((v, None), w) \<and> Retrieve_p0 remote w q = ((v, None), w))
   \<and> (PolicyRuleId q \<noteq> PolicyRuleId p
    \<longrightarrow> cache_Get (cache (snd (Retrieve remote w p))) t (PolicyRuleId q)
          = cache_Get (cache w) t (PolicyRuleId q)
        \<and> cache_Get (cache (snd (Retrieve_p0 remote w p))) t (PolicyRuleId q)
          = cache_Get (cache w) t (PolicyRuleId q))
   \<and> (PolicyRuleId q \<noteq> PolicyRuleId p
     \<and> cache_Get (cache w) (now w) (PolicyRuleId q) = None
    \<longrightarrow> posted (snd (Retrieve remote (snd (Retrieve remote w p)) q))
          = posted (snd (Retrieve remote w p)) @ [\<lparr>Policy = q\<rparr>]
        \<and> posted (snd (Retrieve_p0 remote (snd (Retrieve_p0 remote w p)) q))
          = posted (snd (Retrieve_p0 remote w p)) @ [\<lparr>Policy = q\<rparr>])"
proof (intro conjI impI)
  assume "PolicyRuleId q = PolicyRuleId p \<and> cache_Get (cache w) (now w) (PolicyRuleId p) = Some v"
  then show "Retrieve remote w q = ((v, None), w)" "Retrieve_p0 remote w q = ((v, None), w)"
    by (simp_all add: Retrieve_hit Retrieve_p0_hit)
next
  assume ne: "PolicyRuleId q \<noteq> PolicyRuleId p"
  then show "cache_Get (cache (snd (Retrieve remote w p))) t (PolicyRuleId q)
          = cache_Get (cache w) t (PolicyRuleId q)"
    "cache_Get (cache (snd (Retrieve_p0 remote w p))) t (PolicyRuleId q)
          = cache_Get (cache w) t (PolicyRuleId q)"
    by (simp_all add: cache_Get_Retrieve_other)
next
  assume a: "PolicyRuleId q \<noteq> PolicyRuleId p
     \<and> cache_Get (cache w) (now w) (PolicyRuleId q) = None"
  then have "cache_Get (cache (snd (Retrieve remote w p))) (now (snd (Retrieve remote w p)))
               (PolicyRuleId q) = None"
    "cache_Get (cache (snd (Retrieve_p0 remote w p))) (now (snd (Retrieve_p0 remote w p)))
               (PolicyRuleId q) = None"
    by (simp_all add: cache_Get_Retrieve_other)
  then show "posted (snd (Retrieve remote (snd (Retrieve remote w p)) q))
          = posted (snd (Retrieve remote w p)) @ [\<lparr>Policy = q\<rparr>]"
    "posted (snd (Retrieve_p0 remote (snd (Retrieve_p0 remote w p)) q))
          = posted (snd (Retrieve_p0 remote w p)) @ [\<lparr>Policy = q\<rparr>]"
    by (simp_all add: posted_Retrieve_miss)
qed

theorem Retrieve_keyed_by_rule_id_witness:
  "PolicyRuleId other_engine = PolicyRuleId demo_policy
   \<and> cache_Get (cache warm_world) (now warm_world) (PolicyRuleId demo_policy) = Some 7
   \<and> Retrieve down_remote warm_world other_engine = ((7, None), warm_world)
   \<and> PolicyRuleId other_rule \<noteq> PolicyRuleId demo_policy
   \<and> cache_Get (cache (cold_world 60)) (now (cold_world 60)) (PolicyRuleId other_rule) = None
   \<and> posted (snd (Retrieve steady_remote
                      (snd (Retrieve steady_remote (cold_world 60) demo_policy)) other_rule))
       = posted (snd (Retrieve steady_remote (cold_world 60) demo_policy))
           @ [\<lparr>Policy = other_rule\<rparr>]"
proof -
  have h1: "PolicyRuleId other_engine = PolicyRuleId demo_policy"
    and h2: "cache_Get (cache warm_world) (now warm_world) (PolicyRuleId demo_policy) = Some 7"
    and h3: "PolicyRuleId other_rule \<noteq> PolicyRuleId demo_policy"
    and h4: "cache_Get (cache (cold_world 60)) (now (cold_world 60)) (PolicyRuleId other_rule)
               = None"
    by (simp_all add: demo_defs warm_world_def cold_world_def store_defs)
  from Retrieve_keyed_by_rule_id [of other_engine demo_policy warm_world 7 down_remote]
    Retrieve_keyed_by_rule_id [of other_rule demo_policy "cold_world 60" _ steady_remote]
    h1 h2 h3 h4
  show ?thesis by simp
qed

text \<open>
  C9, as stated, fails: the returned error does not carry the lookup key. With the
  remote down, the calls for \<open>rule-1\<close> and for \<open>rule-2\<close> return the same error
  value.
\<close>

theorem Retrieve_error_same_for_two_keys:
  "PolicyRuleId demo_policy \<noteq> PolicyRuleId other_rule
   \<and> snd (fst (Retrieve down_remote (cold_world 60) demo_policy))
       = Some (Errorf ''failed to fetch metadata: %w'' [W (External ''connection refused'')])
   \<and> snd (fst (Retrieve down_remote (cold_world 60) other_rule))
       = Some (Errorf ''failed to fetch metadata: %w'' [W (External ''connection refused'')])"
  by (simp add: Retrieve_def callEnrich_eq callEnrich_resp_def cold_world_def store_defs demo_defs)

text \<open>
  C9, amended. When the fetch fails with error \<open>e\<close>, \<open>Retrieve\<close> returns an error
  that wraps \<open>e\<close> under the fixed message \<open>failed to fetch metadata\<close> (part_000 wraps
  it once more, under \<open>failed to call metadata API\<close>); the returned error is made of
  \<open>e\<close> alone. In cacheable.go the key, rule identifier and engine name, goes to the
  error log entry written last; part_000 writes no log entry.
\<close>

theorem Retrieve_error_wraps:
  "(cache_Get (cache w) (now w) (PolicyRuleId policy) = None
     \<and> callEnrich_resp (remote (length (posted w)) \<lparr>Policy = policy\<rparr>) = Inl e
    \<longrightarrow> snd (fst (Retrieve remote w policy))
          = Some (Errorf ''failed to fetch metadata: %w'' [W e])
        \<and> last (logged (snd (Retrieve remote w policy)))
          = (ErrorLevel, ''enrichment API call failed'',
             [ZString ''policy_rule_id'' (PolicyRuleId policy),
              ZString ''policy_engine_name'' (PolicyEngineName policy), ZError e]))
   \<and> (cache_Get (cache w) (now w) (PolicyRuleId policy) = None
     \<and> callEnrich_p0_resp (remote (length (posted w)) \<lparr>Policy = policy\<rparr>) = Inl e
    \<longrightarrow> snd (fst (Retrieve_p0 remote w policy))
          = Some (Errorf ''failed to fetch metadata: %w''
                    [W (Errorf ''failed to call metadata API: %w'' [W e])])
        \<and> logged (snd (Retrieve_p0 remote w policy)) = logged w)"
  by (simp add: Retrieve_miss Retrieve_p0_miss Let_def)

theorem Retrieve_error_wraps_witness:
  "cache_Get (cache (cold_world 60)) (now (cold_world 60)) (PolicyRuleId demo_policy) = None
   \<and> callEnrich_resp (down_remote (length (posted (cold_world 60))) \<lparr>Policy = demo_policy\<rparr>)
       = Inl (External ''connection refused'')
   \<and> callEnrich_p0_resp (down_remote (length (posted (cold_world 60))) \<lparr>Policy = demo_policy\<rparr>)
       = Inl (External ''connection refused'')
   \<and> snd (fst (Retrieve down_remote (cold_world 60) demo_policy))
       = Some (Errorf ''failed to fetch metadata: %w'' [W (External ''connection refused'')])
   \<and> snd (fst (Retrieve_p0 down_remote (cold_world 60) demo_policy))
       = Some (Errorf ''failed to fetch metadata: %w''
                 [W (Errorf ''failed to call metadata API: %w''
                       [W (External ''connection refused'')])])"
proof -
  have h1: "cache_Get (cache (cold_world 60)) (now (cold_world 60)) (PolicyRuleId demo_policy) = None"
    by (simp add: cold_world_def store_defs)
  have h2: "callEnrich_resp (down_remote (length (posted (cold_world 60))) \<lparr>Policy = demo_policy\<rparr>)
       = Inl (External ''connection refused'')"
    "callEnrich_p0_resp (down_remote (length (posted (cold_world 60))) \<lparr>Policy = demo_policy\<rparr>)
       = Inl (External ''connection refused'')"
    by (simp_all add: down_remote_def callEnrich_resp_def callEnrich_p0_resp_def)
  from Retrieve_error_wraps [of "cold_world 60" demo_policy down_remote "External ''connection refused''"]
    h1 h2
  show ?thesis by simp
qed

text \<open>
  C10. On every path on which \<open>Retrieve\<close> returns a non-nil error, the value
  returned with it is the zero value \<open>Compliance{}\<close>. Both copies of the client.
\<close>

theorem Retrieve_error_zero_value:
  "(snd (fst (Retrieve remote w policy)) \<noteq> None \<longrightarrow> fst (fst (Retrieve remote w policy)) = 0)
   \<and> (snd (fst (Retrieve_p0 remote w policy)) \<noteq> None
        \<longrightarrow> fst (fst (Retrieve_p0 remote w policy)) = 0)"
proof (cases "cache_Get (cache w) (now w) (PolicyRuleId policy)")
  case None
  then show ?thesis
    by (auto simp: Retrieve_miss Retrieve_p0_miss Let_def split: sum.splits)
next
  case (Some v)
  then show ?thesis
    by (simp add: Retrieve_hit Retrieve_p0_hit)
qed

theorem Retrieve_error_zero_value_witness:
  "snd (fst (Retrieve down_remote (cold_world 60) demo_policy)) \<noteq> None
   \<and> fst (fst (Retrieve down_remote (cold_world 60) demo_policy)) = 0
   \<and> snd (fst (Retrieve_p0 down_remote (cold_world 60) demo_policy)) \<noteq> None
   \<and> fst (fst (Retrieve_p0 down_remote (cold_world 60) demo_policy)) = 0"
proof -
  have h1: "cache_Get (cache (cold_world 60)) (now (cold_world 60)) (PolicyRuleId demo_policy) = None"
    by (simp add: cold_world_def store_defs)
  have h2: "snd (fst (Retrieve down_remote (cold_world 60) demo_policy)) \<noteq> None"
    "snd (fst (Retrieve_p0 down_remote (cold_world 60) demo_policy)) \<noteq> None"
    by (simp_all add: Retrieve_miss [OF h1] Retrieve_p0_miss [OF h1] down_remote_def Let_def
        callEnrich_resp_def callEnrich_p0_resp_def)
  from Retrieve_error_zero_value [of down_remote "cold_world 60" demo_policy] h2
  show ?thesis by simp
qed

subsection \<open>The batch\<close>

lemma loop_k_append:
  "loop_k body w (xs @ ys) =
     (case loop_k body w xs of
        None \<Rightarrow> None
      | Some (xs', w1) \<Rightarrow>
          (case loop_k body w1 ys of
             None \<Rightarrow> None
           | Some (ys', w2) \<Rightarrow> Some (xs' @ ys', w2)))"
  by (induction xs arbitrary: w) (auto split: option.splits)

lemma loop_k_length:
  "loop_k body w xs = Some (ys, w') \<Longrightarrow> length ys = length xs"
  by (induction xs arbitrary: w ys) (auto split: option.splits)

lemma loop_k_nth:
  assumes "loop_k body w xs = Some (ys, w')" and "i < length xs"
  shows "\<exists>pre wi w1. loop_k body w (take i xs) = Some (pre, wi)
           \<and> body wi (xs ! i) = Some (ys ! i, w1)"
  using assms
proof (induction xs arbitrary: w ys i)
  case Nil
  then show ?case by simp
next
  case (Cons x xs)
  from Cons.prems(1) obtain x' w1 ys' where
    b: "body w x = Some (x', w1)" and r: "loop_k body w1 xs = Some (ys', w')"
    and ys: "ys = x' # ys'"
    by (auto split: option.splits)
  show ?case
  proof (cases i)
    case 0
    with b ys show ?thesis by simp
  next
    case (Suc j)
    with Cons.prems(2) have "j < length xs" by simp
    from Cons.IH [OF r this] obtain pre wi w2 where
      "loop_k body w1 (take j xs) = Some (pre, wi)" "body wi (xs ! j) = Some (ys' ! j, w2)"
      by blast
    with Suc b ys show ?thesis by simp
  qed
qed

lemma loop_k_total:
  assumes "\<And>w r. body w r \<noteq> None"
  shows "loop_k body w xs \<noteq> None"
proof (induction xs arbitrary: w)
  case Nil
  show ?case by simp
next
  case (Cons x xs)
  from assms [of w x] obtain x' w1 where "body w x = Some (x', w1)" by auto
  with Cons [of w1] show ?case by (auto split: option.splits)
qed

lemma loop_j_flat:
  assumes "loop_j body w xss = Some (yss, w')"
  shows "loop_k body w (concat xss) = Some (concat yss, w')
         \<and> map length yss = map length xss"
  using assms
proof (induction xss arbitrary: w yss)
  case Nil
  then show ?case by simp
next
  case (Cons xs xss)
  from Cons.prems obtain ys w1 yss' where
    k: "loop_k body w xs = Some (ys, w1)" and j: "loop_j body w1 xss = Some (yss', w')"
    and yss: "yss = ys # yss'"
    by (auto split: option.splits)
  from Cons.IH [OF j] k yss loop_k_length [OF k] show ?case
    by (simp add: loop_k_append)
qed

lemma loop_j_total:
  assumes "\<And>w r. body w r \<noteq> None"
  shows "loop_j body w xss \<noteq> None"
proof (induction xss arbitrary: w)
  case Nil
  show ?case by simp
next
  case (Cons xs xss)
  from loop_k_total [of body w xs] assms obtain ys w1 where
    "loop_k body w xs = Some (ys, w1)"
    by auto
  with Cons [of w1] show ?case by (auto split: option.splits)
qed

lemma loop_i_flat:
  assumes "loop_i body w ld = Some (ld', w')"
  shows "loop_k body w (concat (concat ld)) = Some (concat (concat ld'), w')
         \<and> map (map length) ld' = map (map length) ld"
  using assms
proof (induction ld arbitrary: w ld')
  case Nil
  then show ?case by simp
next
  case (Cons rs rl)
  from Cons.prems obtain rs' w1 rl' where
    j: "loop_j body w rs = Some (rs', w1)" and i: "loop_i body w1 rl = Some (rl', w')"
    and ld': "ld' = rs' # rl'"
    by (auto split: option.splits)
  from Cons.IH [OF i] loop_j_flat [OF j] ld' show ?case
    by (simp add: loop_k_append)
qed

lemma loop_i_total:
  assumes "\<And>w r. body w r \<noteq> None"
  shows "loop_i body w ld \<noteq> None"
proof (induction ld arbitrary: w)
  case Nil
  show ?case by simp
next
  case (Cons rs rl)
  from loop_j_total [of body w rs] assms obtain rs' w1 where
    "loop_j body w rs = Some (rs', w1)"
    by auto
  with Cons [of w1] show ?case by (auto split: option.splits)
qed

lemma processRecord_started:
  assumes "client t = Some remote"
  shows "processRecord t Extract Apply w r \<noteq> None"
  using assms by (auto simp: processRecord_def split: prod.splits option.splits)

lemma processRecord_failed:
  assumes "client t = Some remote"
    and "processRecord t Extract Apply w r = Some (r', w')"
    and "snd (snd (Extract r)) \<noteq> None
         \<or> snd (fst (Retrieve remote w (fst (Extract r)))) \<noteq> None"
  shows "r' = r"
  using assms
  by (auto simp: processRecord_def split: prod.splits option.splits)

lemma processRecord_enriched:
  assumes "client t = Some remote"
    and "processRecord t Extract Apply w r = Some (r', w')"
    and "snd (snd (Extract r)) = None"
    and "snd (fst (Retrieve remote w (fst (Extract r)))) = None"
  shows "r' = fst (Apply r (fst (fst (Retrieve remote w (fst (Extract r)))))
                    (fst (snd (Extract r))))"
  using assms
  by (auto simp: processRecord_def split: prod.splits option.splits)

text \<open>Before \<open>start\<close>, the first record whose extraction succeeds ends the run in the
  nil-pointer panic.\<close>

lemma processLogs_before_start:
  assumes "client t = None" and "snd (snd (Extract r)) = None"
  shows "processLogs t Extract Apply w [[[r]]] = None"
  using assms by (cases "Extract r") (auto simp: processLogs_def processRecord_def)

text \<open>
  C7. For a started processor (\<open>t.client\<close> is the client \<open>start\<close> stored),
  \<open>processLogs\<close> returns, with a nil error, for every batch. The batch it returns has
  the shape of the batch it was given, and its records, read in batch order, are those
  that one pass of the loop body over the records in batch order produces, each record
  processed in the shared state its predecessors left. At every position \<open>i\<close> of the
  batch: a record whose extraction fails, or whose \<open>Retrieve\<close> fails in the state
  \<open>wi\<close> it is reached in, comes out as it went in; every other record, also one that
  follows a failed record, comes out as \<open>Apply\<close> leaves it for the value
  \<open>Retrieve\<close> returned.
\<close>

theorem processLogs_continue_on_error:
  assumes "client t = Some remote"
  shows "\<exists>ld' w'.
          processLogs t Extract Apply w ld = Some ((ld', None), w')
          \<and> map (map length) ld' = map (map length) ld
          \<and> loop_k (processRecord t Extract Apply) w (concat (concat ld))
              = Some (concat (concat ld'), w')
          \<and> (i < length (concat (concat ld)) \<longrightarrow>
               (\<exists>pre wi.
                  loop_k (processRecord t Extract Apply) w (take i (concat (concat ld)))
                    = Some (pre, wi)
                  \<and> (snd (snd (Extract (concat (concat ld) ! i))) \<noteq> None
                       \<or> snd (fst (Retrieve remote wi (fst (Extract (concat (concat ld) ! i)))))
                           \<noteq> None
                     \<longrightarrow> concat (concat ld') ! i = concat (concat ld) ! i)
                  \<and> (snd (snd (Extract (concat (concat ld) ! i))) = None
                       \<and> snd (fst (Retrieve remote wi (fst (Extract (concat (concat ld) ! i)))))
                           = None
                     \<longrightarrow> concat (concat ld') ! i
                          = fst (Apply (concat (concat ld) ! i)
                                   (fst (fst (Retrieve remote wi
                                                (fst (Extract (concat (concat ld) ! i))))))
                                   (fst (snd (Extract (concat (concat ld) ! i))))))))"
proof -
  let ?body = "processRecord t Extract Apply"
  let ?flat = "concat (concat ld)"
  have total: "?body w r \<noteq> None" for w r
    by (rule processRecord_started [OF assms])
  from loop_i_total [of ?body w ld] total obtain ld' w' where
    li: "loop_i ?body w ld = Some (ld', w')"
    by auto
  note flat = loop_i_flat [OF li]
  have pl: "processLogs t Extract Apply w ld = Some ((ld', None), w')"
    by (simp add: processLogs_def li)
  have each: "\<exists>pre wi.
        loop_k ?body w (take i ?flat) = Some (pre, wi)
        \<and> (snd (snd (Extract (?flat ! i))) \<noteq> None
             \<or> snd (fst (Retrieve remote wi (fst (Extract (?flat ! i))))) \<noteq> None
           \<longrightarrow> concat (concat ld') ! i = ?flat ! i)
        \<and> (snd (snd (Extract (?flat ! i))) = None
             \<and> snd (fst (Retrieve remote wi (fst (Extract (?flat ! i))))) = None
           \<longrightarrow> concat (concat ld') ! i
                = fst (Apply (?flat ! i)
                         (fst (fst (Retrieve remote wi (fst (Extract (?flat ! i))))))
                         (fst (snd (Extract (?flat ! i))))))"
    if "i < length ?flat"
  proof -
    from loop_k_nth [OF conjunct1 [OF flat] that] obtain pre wi w1 where
      p: "loop_k ?body w (take i ?flat) = Some (pre, wi)"
      and b: "?body wi (?flat ! i) = Some (concat (concat ld') ! i, w1)"
      by blast
    show ?thesis
    proof (intro exI conjI impI)
      show "loop_k ?body w (take i ?flat) = Some (pre, wi)"
        by (rule p)
    next
      assume "snd (snd (Extract (?flat ! i))) \<noteq> None
             \<or> snd (fst (Retrieve remote wi (fst (Extract (?flat ! i))))) \<noteq> None"
      then show "concat (concat ld') ! i = ?flat ! i"
        by (rule processRecord_failed [OF assms b])
    next
      assume "snd (snd (Extract (?flat ! i))) = None
             \<and> snd (fst (Retrieve remote wi (fst (Extract (?flat ! i))))) = None"
      then show "concat (concat ld') ! i
                = fst (Apply (?flat ! i)
                         (fst (fst (Retrieve remote wi (fst (Extract (?flat ! i))))))
                         (fst (snd (Extract (?flat ! i)))))"
        using processRecord_enriched [OF assms b] by simp
    qed
  qed
  from pl flat each show ?thesis by blast
qed

lemma demo_run:
  "map_option fst
     (processLogs \<lparr>client = Some steady_remote\<rparr> demo_Extract demo_Apply (cold_world 60)
        demo_batch)
     = Some ([[[(''rule-1'', Some 7), ([], None)], [(''rule-2'', Some 7)]]], None)"
  by (simp add: processLogs_def processRecord_def demo_Extract_def demo_Apply_def demo_batch_def
      Retrieve_def callEnrich_eq callEnrich_resp_def cold_world_def store_defs demo_defs
      logger_Error_def)

theorem processLogs_continue_on_error_witness:
  "client \<lparr>client = Some steady_remote\<rparr> = Some steady_remote
   \<and> 1 < length (concat (concat demo_batch))
   \<and> snd (snd (demo_Extract (concat (concat demo_batch) ! 1))) \<noteq> None
   \<and> 0 < length (concat (concat demo_batch))
   \<and> loop_k (processRecord \<lparr>client = Some steady_remote\<rparr> demo_Extract demo_Apply)
        (cold_world 60) (take 0 (concat (concat demo_batch))) = Some ([], cold_world 60)
   \<and> snd (snd (demo_Extract (concat (concat demo_batch) ! 0))) = None
   \<and> snd (fst (Retrieve steady_remote (cold_world 60)
                  (fst (demo_Extract (concat (concat demo_batch) ! 0))))) = None
   \<and> map_option fst
        (processLogs \<lparr>client = Some steady_remote\<rparr> demo_Extract demo_Apply (cold_world 60)
           demo_batch)
       = Some ([[[(''rule-1'', Some 7), ([], None)], [(''rule-2'', Some 7)]]], None)"
proof -
  have h0: "client \<lparr>client = Some steady_remote\<rparr> = Some steady_remote"
    by simp
  have h1: "1 < length (concat (concat demo_batch))"
    and h2: "snd (snd (demo_Extract (concat (concat demo_batch) ! 1))) \<noteq> None"
    and h3: "0 < length (concat (concat demo_batch))"
    and h4: "loop_k (processRecord \<lparr>client = Some steady_remote\<rparr> demo_Extract demo_Apply)
        (cold_world 60) (take 0 (concat (concat demo_batch))) = Some ([], cold_world 60)"
    and h5: "snd (snd (demo_Extract (concat (concat demo_batch) ! 0))) = None"
    by (simp_all add: demo_batch_def demo_Extract_def)
  have h6: "snd (fst (Retrieve steady_remote (cold_world 60)
                  (fst (demo_Extract (concat (concat demo_batch) ! 0))))) = None"
    by (simp add: demo_batch_def demo_Extract_def Retrieve_def callEnrich_eq callEnrich_resp_def
        cold_world_def store_defs demo_defs)
  from processLogs_continue_on_error
         [OF h0, of demo_Extract demo_Apply "cold_world 60" demo_batch 1]
       processLogs_continue_on_error
         [OF h0, of demo_Extract demo_Apply "cold_world 60" demo_batch 0]
  obtain ld' w' where
    "processLogs \<lparr>client = Some steady_remote\<rparr> demo_Extract demo_Apply (cold_world 60) demo_batch
       = Some ((ld', None), w')"
    by blast
  with h0 h1 h2 h3 h4 h5 h6 demo_run show ?thesis by simp
qed

subsection \<open>Entries over time\<close>

lemma ttl_Retrieve [simp]: "ttl (cache (snd (Retrieve remote w policy))) = ttl (cache w)"
  using cache_Retrieve [of remote w policy] by (auto simp: cache_Set_def)

lemma ttl_DeleteExpired [simp]: "ttl (DeleteExpired c t) = ttl c"
  by (simp add: DeleteExpired_def)

lemma ttl_session [simp]: "ttl (cache (session remote ops w)) = ttl (cache w)"
  by (induction remote ops w rule: session.induct) simp_all

lemma ttl_fresh [simp]: "ttl (cache (fresh T t0)) = T"
  by (simp add: fresh_def NewCacheableClient_def cache_New_def Let_def)

lemma Get_never_expire:
  "ttl c < 1 \<Longrightarrow> cache_Get c t k = map_option Object (items c k)"
  by (simp add: cache_Get_def expired_def split: option.splits)

lemma items_DeleteExpired_never:
  "ttl c < 1 \<Longrightarrow> items (DeleteExpired c t) = items c"
  by (auto simp: DeleteExpired_def expired_def split: option.splits)

lemma Retrieve_keeps_entry:
  assumes "ttl (cache w) < 1" and "cache_Get (cache w) (now w) k = Some v"
  shows "cache_Get (cache (snd (Retrieve remote w q))) t k = Some v
         \<and> filter (\<lambda>r. PolicyRuleId (Policy r) = k) (posted (snd (Retrieve remote w q)))
             = filter (\<lambda>r. PolicyRuleId (Policy r) = k) (posted w)"
proof (cases "PolicyRuleId q = k")
  case True
  with assms show ?thesis
    by (simp add: Retrieve_hit Get_never_expire)
next
  case False
  then have g: "cache_Get (cache (snd (Retrieve remote w q))) t k = cache_Get (cache w) t k"
    by (simp add: cache_Get_Retrieve_other)
  have "posted (snd (Retrieve remote w q)) = posted w
        \<or> posted (snd (Retrieve remote w q)) = posted w @ [\<lparr>Policy = q\<rparr>]"
    by (cases "cache_Get (cache w) (now w) (PolicyRuleId q)")
       (simp_all add: Retrieve_hit posted_Retrieve_miss)
  with g False assms show ?thesis
    by (auto simp: Get_never_expire)
qed

lemma session_keeps_entry:
  assumes "ttl (cache w) < 1" and "cache_Get (cache w) (now w) k = Some v"
  shows "cache_Get (cache (session remote ops w)) (now (session remote ops w)) k = Some v
         \<and> filter (\<lambda>r. PolicyRuleId (Policy r) = k) (posted (session remote ops w))
             = filter (\<lambda>r. PolicyRuleId (Policy r) = k) (posted w)"
  using assms
proof (induction remote ops w rule: session.induct)
  case (1 remote w)
  then show ?case by simp
next
  case (2 remote policy ops w)
  from Retrieve_keeps_entry [OF "2.prems", of remote policy "now w"]
  show ?case using "2.IH" "2.prems"(1) by simp
next
  case (3 remote d ops w)
  then show ?case by (simp add: Get_never_expire)
next
  case (4 remote ops w)
  then show ?case by (simp add: Get_never_expire items_DeleteExpired_never)
qed

lemma Retrieve_success_stored:
  assumes "snd (fst (Retrieve remote w p)) = None"
  shows "items (cache (snd (Retrieve remote w p))) (PolicyRuleId p) \<noteq> None
         \<and> map_option Object (items (cache (snd (Retrieve remote w p))) (PolicyRuleId p))
            = Some (fst (fst (Retrieve remote w p)))
         \<and> (cache_Get (cache w) (now w) (PolicyRuleId p) = None \<longrightarrow>
              items (cache (snd (Retrieve remote w p))) (PolicyRuleId p)
                = Some \<lparr>Object = fst (fst (Retrieve remote w p)), Inserted = now w\<rparr>)"
proof (cases "cache_Get (cache w) (now w) (PolicyRuleId p)")
  case None
  with assms show ?thesis
    by (cases "callEnrich_resp (remote (length (posted w)) \<lparr>Policy = p\<rparr>)")
       (simp_all add: Retrieve_miss Let_def cache_Set_def)
next
  case (Some v)
  then show ?thesis
    by (auto simp: Retrieve_hit cache_Get_def split: option.splits if_splits)
qed

text \<open>
  C8. A client built by \<open>NewCacheableClient\<close> with the never-expire TTL, after any
  history of calls, elapsed time and sweeps: once a call of \<open>Retrieve\<close> for a policy has
  succeeded, then after any further history, whatever time elapses in it, the next call
  for that policy returns the same value without error and leaves the shared state as
  it is, and no request for that key has been posted in between. A client built with a
  finite TTL \<open>T\<close> of at least one nanosecond: when a call missed, fetched and
  succeeded, a call made more than \<open>T\<close> later posts exactly one new request, for that
  policy.
\<close>

theorem Retrieve_respects_ttl:
  "(snd (fst (Retrieve remote (session remote before (fresh NoExpiration t0)) p)) = None
    \<longrightarrow> Retrieve remote
          (session remote after
             (snd (Retrieve remote (session remote before (fresh NoExpiration t0)) p))) p
         = ((fst (fst (Retrieve remote (session remote before (fresh NoExpiration t0)) p)), None),
            session remote after
              (snd (Retrieve remote (session remote before (fresh NoExpiration t0)) p)))
      \<and> filter (\<lambda>r. PolicyRuleId (Policy r) = PolicyRuleId p)
           (posted (session remote after
              (snd (Retrieve remote (session remote before (fresh NoExpiration t0)) p))))
         = filter (\<lambda>r. PolicyRuleId (Policy r) = PolicyRuleId p)
             (posted (snd (Retrieve remote (session remote before (fresh NoExpiration t0)) p))))
   \<and> (1 \<le> T
      \<and> cache_Get (cache (session remote before (fresh T t0)))
           (now (session remote before (fresh T t0))) (PolicyRuleId p) = None
      \<and> snd (fst (Retrieve remote (session remote before (fresh T t0)) p)) = None
      \<and> T < int d
    \<longrightarrow> posted (snd (Retrieve remote
            (session remote [Elapse d] (snd (Retrieve remote (session remote before (fresh T t0)) p)))
            p))
         = posted (snd (Retrieve remote (session remote before (fresh T t0)) p)) @ [\<lparr>Policy = p\<rparr>])"
proof (intro conjI impI)
  let ?w = "session remote before (fresh NoExpiration t0)"
  let ?w1 = "snd (Retrieve remote ?w p)"
  assume ok: "snd (fst (Retrieve remote ?w p)) = None"
  have never: "ttl (cache ?w1) < 1" by (simp add: NoExpiration_def)
  from Retrieve_success_stored [OF ok] never
  have "cache_Get (cache ?w1) (now ?w1) (PolicyRuleId p) = Some (fst (fst (Retrieve remote ?w p)))"
    by (simp add: Get_never_expire)
  from session_keeps_entry [OF never this, of remote after]
  show "Retrieve remote (session remote after ?w1) p
         = ((fst (fst (Retrieve remote ?w p)), None), session remote after ?w1)"
    and "filter (\<lambda>r. PolicyRuleId (Policy r) = PolicyRuleId p) (posted (session remote after ?w1))
         = filter (\<lambda>r. PolicyRuleId (Policy r) = PolicyRuleId p) (posted ?w1)"
    by (simp_all add: Retrieve_hit)
next
  let ?w = "session remote before (fresh T t0)"
  let ?w1 = "snd (Retrieve remote ?w p)"
  assume a: "1 \<le> T \<and> cache_Get (cache ?w) (now ?w) (PolicyRuleId p) = None
      \<and> snd (fst (Retrieve remote ?w p)) = None \<and> T < int d"
  with Retrieve_success_stored [of remote ?w p]
  have "items (cache ?w1) (PolicyRuleId p)
          = Some \<lparr>Object = fst (fst (Retrieve remote ?w p)), Inserted = now ?w\<rparr>"
    by simp
  with a have "cache_Get (cache (session remote [Elapse d] ?w1))
                 (now (session remote [Elapse d] ?w1)) (PolicyRuleId p) = None"
    by (simp add: cache_Get_def expired_def)
  then show "posted (snd (Retrieve remote (session remote [Elapse d] ?w1) p))
         = posted ?w1 @ [\<lparr>Policy = p\<rparr>]"
    by (simp add: posted_Retrieve_miss)
qed

lemma demo_first_call:
  "Retrieve steady_remote (fresh T 0) demo_policy
     = ((7, None),
        \<lparr>cache = cache_Set (NewCacheableClient T) 0 ''rule-1'' 7, now = 0,
          posted = [\<lparr>Policy = demo_policy\<rparr>],
          logged = [(DebugLevel, ''calling compass enrich API'',
                     [ZString ''policy_rule_id'' ''rule-1'',
                      ZString ''policy_engine_name'' ''opa''])]\<rparr>)"
proof -
  have miss: "cache_Get (cache (fresh T 0 :: nat world)) (now (fresh T 0 :: nat world))
                (PolicyRuleId demo_policy) = None"
    by simp
  show ?thesis
    unfolding Retrieve_miss [OF miss]
    by (simp add: Let_def demo_defs callEnrich_resp_def fresh_def)
qed

theorem Retrieve_respects_ttl_witness:
  "snd (fst (Retrieve steady_remote (session steady_remote [] (fresh NoExpiration 0))
               demo_policy)) = None
   \<and> fst (Retrieve steady_remote
           (session steady_remote [Elapse 1000000, Janitor]
              (snd (Retrieve steady_remote (session steady_remote [] (fresh NoExpiration 0))
                      demo_policy))) demo_policy)
       = (7, None)
   \<and> (1::int) \<le> 60
   \<and> cache_Get (cache (session steady_remote [] (fresh 60 0)))
        (now (session steady_remote [] (fresh 60 0))) (PolicyRuleId demo_policy) = None
   \<and> snd (fst (Retrieve steady_remote (session steady_remote [] (fresh 60 0)) demo_policy))
       = None
   \<and> (60::int) < int 61
   \<and> posted (snd (Retrieve steady_remote
         (session steady_remote [Elapse 61]
            (snd (Retrieve steady_remote (session steady_remote [] (fresh 60 0)) demo_policy)))
         demo_policy))
       = [\<lparr>Policy = demo_policy\<rparr>, \<lparr>Policy = demo_policy\<rparr>]"
proof -
  have h1: "snd (fst (Retrieve steady_remote (session steady_remote [] (fresh NoExpiration 0))
               demo_policy)) = None"
    and h2: "cache_Get (cache (session steady_remote [] (fresh 60 0)))
        (now (session steady_remote [] (fresh 60 0))) (PolicyRuleId demo_policy) = None"
    and h3: "snd (fst (Retrieve steady_remote (session steady_remote [] (fresh 60 0)) demo_policy))
       = None"
    by (simp_all add: demo_first_call)
  have p1: "posted (snd (Retrieve steady_remote (session steady_remote [] (fresh 60 0))
                           demo_policy)) = [\<lparr>Policy = demo_policy\<rparr>]"
    and v1: "fst (fst (Retrieve steady_remote (session steady_remote [] (fresh NoExpiration 0))
               demo_policy)) = 7"
    by (simp_all add: demo_first_call)
  from Retrieve_respects_ttl
         [of steady_remote "[]" 0 demo_policy "[Elapse 1000000, Janitor]" 60 61] h1 h2 h3 p1 v1
  show ?thesis by simp
qed

subsection \<open>Concurrent callers\<close>

lemma run_snoc: "run stepf (sched @ [e]) s = fire stepf (run stepf sched s) e"
  by (simp add: run_def)

lemma run_Nil: "run stepf [] s = s"
  by (simp add: run_def)

lemma Get_live:
  assumes "never_stale s"
  shows "cache_Get (cache (shared s)) (now (shared s)) k = None \<longleftrightarrow> items (cache (shared s)) k = None"
    and "cache_Get (cache (shared s)) (now (shared s)) k = Some v \<longleftrightarrow> stored (shared s) k v"
  using assms by (auto simp: never_stale_def cache_Get_def stored_def split: option.splits)

lemma goto_simps [simp]:
  "pcs (goto s t p) = (pcs s)(t := p)" "shared (goto s t p) = shared s" "mu (goto s t p) = mu s"
  by (simp_all add: goto_def)

lemma critical_simps [simp]:
  "\<not> critical AtGet1" "\<not> critical AtLock" "critical AtGet2" "critical AtCall"
  "critical (InFlight out)" "critical (AtSet v)" "critical (AtUnlock r)" "\<not> critical (Returned r)"
  by (simp_all add: critical_def)

lemma fetching_simps [simp]:
  "\<not> fetching AtGet1" "\<not> fetching AtLock" "\<not> fetching AtGet2" "fetching AtCall"
  "fetching (InFlight out)" "fetching (AtSet v)" "\<not> fetching (AtUnlock r)" "\<not> fetching (Returned r)"
  by (simp_all add: fetching_def)

lemma fetching_critical: "fetching p \<Longrightarrow> critical p"
  by (cases p) simp_all

lemma step_AtGet1:
  "pcs s t = AtGet1 \<Longrightarrow> Retrieve_step remote pol t s =
     (case cache_Get (cache (shared s)) (now (shared s)) (PolicyRuleId (pol t)) of
        Some v \<Rightarrow> goto s t (Returned (v, None)) | None \<Rightarrow> goto s t AtLock)"
  by (simp add: Retrieve_step_def Let_def)

lemma step_AtLock:
  "pcs s t = AtLock \<Longrightarrow> Retrieve_step remote pol t s =
     (if mu s = None then goto (s\<lparr>mu := Some t\<rparr>) t AtGet2 else s)"
  by (simp add: Retrieve_step_def Let_def)

lemma step_AtGet2:
  "pcs s t = AtGet2 \<Longrightarrow> Retrieve_step remote pol t s =
     (case cache_Get (cache (shared s)) (now (shared s)) (PolicyRuleId (pol t)) of
        Some v \<Rightarrow> goto s t (AtUnlock (v, None)) | None \<Rightarrow> goto s t AtCall)"
  by (simp add: Retrieve_step_def Let_def)

lemma step_AtCall:
  "pcs s t = AtCall \<Longrightarrow> Retrieve_step remote pol t s =
     goto (s\<lparr>shared := (shared s)\<lparr>
               logged := logged (shared s) @ [(DebugLevel, ''calling compass enrich API'',
                   [ZString ''policy_rule_id'' (PolicyRuleId (pol t)),
                    ZString ''policy_engine_name'' (PolicyEngineName (pol t))])],
               posted := posted (shared s) @ [\<lparr>Policy = pol t\<rparr>]\<rparr>\<rparr>)
       t (InFlight (remote (length (posted (shared s))) \<lparr>Policy = pol t\<rparr>))"
  by (simp add: Retrieve_step_def PostV1Enrich_def logger_Debug_def Let_def)

lemma step_InFlight:
  "pcs s t = InFlight out \<Longrightarrow> Retrieve_step remote pol t s =
     (case callEnrich_resp out of
        Inl err \<Rightarrow>
          goto (s\<lparr>shared := (shared s)\<lparr>logged := logged (shared s) @
                   [(ErrorLevel, ''enrichment API call failed'',
                     [ZString ''policy_rule_id'' (PolicyRuleId (pol t)),
                      ZString ''policy_engine_name'' (PolicyEngineName (pol t)),
                      ZError err])]\<rparr>\<rparr>)
            t (AtUnlock (0, Some (Errorf ''failed to fetch metadata: %w'' [W err])))
      | Inr r \<Rightarrow> goto s t (AtSet (Compliance r)))"
  by (simp add: Retrieve_step_def logger_Error_def Let_def split: sum.splits)

lemma step_AtSet:
  "pcs s t = AtSet v \<Longrightarrow> Retrieve_step remote pol t s =
     goto (s\<lparr>shared := (shared s)\<lparr>cache := cache_Set (cache (shared s)) (now (shared s))
                                          (PolicyRuleId (pol t)) v\<rparr>\<rparr>)
       t (AtUnlock (v, None))"
  by (simp add: Retrieve_step_def Let_def)

lemma step_AtUnlock:
  "pcs s t = AtUnlock r \<Longrightarrow> Retrieve_step remote pol t s = goto (s\<lparr>mu := None\<rparr>) t (Returned r)"
  by (simp add: Retrieve_step_def Let_def)

lemma step_Returned:
  "pcs s t = Returned r \<Longrightarrow> Retrieve_step remote pol t s = s"
  by (simp add: Retrieve_step_def Let_def)

lemmas step_simps = step_AtGet1 step_AtLock step_AtGet2 step_AtCall step_InFlight step_AtSet
  step_AtUnlock step_Returned

lemma step_pcs_other: "u \<noteq> t \<Longrightarrow> pcs (Retrieve_step remote pol t s) u = pcs s u"
  by (cases "pcs s t") (auto simp: step_simps split: option.splits sum.splits)

lemma items_Set [simp]: "items (cache_Set c t k x) = (items c)(k \<mapsto> \<lparr>Object = x, Inserted = t\<rparr>)"
  by (simp add: cache_Set_def)

lemma holder_unique:
  assumes "inv_mu s" "critical (pcs s t)" "u \<noteq> t"
  shows "\<not> critical (pcs s u)"
  using assms unfolding inv_mu_def by (metis option.inject)

lemma inv_mu_step:
  assumes "inv_mu s"
  shows "inv_mu (Retrieve_step remote pol t s)"
proof (cases "pcs s t")
  case AtLock
  with assms show ?thesis
    by (auto simp: inv_mu_def step_simps)
next
  case (AtUnlock r)
  then have "\<not> critical (pcs s u)" if "u \<noteq> t" for u
    using holder_unique [OF assms _ that] by simp
  with AtUnlock show ?thesis
    by (auto simp: inv_mu_def step_simps)
qed (use assms in \<open>auto simp: inv_mu_def step_simps split: option.splits sum.splits\<close>)

lemma inv_mu_p0_step:
  assumes "inv_mu s"
  shows "inv_mu (Retrieve_p0_step remote pol t s)"
proof (cases "pcs s t")
  case AtLock
  with assms show ?thesis
    by (auto simp: inv_mu_def Retrieve_p0_step_def Let_def)
next
  case (AtUnlock r)
  then have "\<not> critical (pcs s u)" if "u \<noteq> t" for u
    using holder_unique [OF assms _ that] by simp
  with AtUnlock show ?thesis
    by (auto simp: inv_mu_def Retrieve_p0_step_def Let_def)
qed (use assms in \<open>auto simp: inv_mu_def Retrieve_p0_step_def Let_def PostV1Enrich_def
      split: option.splits sum.splits prod.splits\<close>)

lemma inv_mu_fire:
  assumes "\<And>t s. inv_mu s \<Longrightarrow> inv_mu (stepf t s)" and "inv_mu (s :: 'c system)"
  shows "inv_mu (fire stepf s e)"
  using assms by (cases e) (auto simp: fire_def inv_mu_def)

lemma inv_mu_run:
  assumes "\<And>t s. inv_mu s \<Longrightarrow> inv_mu (stepf t s)" and "inv_mu (s :: 'c system)"
  shows "inv_mu (run stepf sched s)"
proof (induction sched rule: rev_induct)
  case Nil
  then show ?case using assms(2) by (simp add: run_Nil)
next
  case (snoc e sched)
  then show ?case using assms(1) by (simp add: run_snoc inv_mu_fire)
qed

lemma inv_mu_init: "inv_mu (init w)"
  by (simp add: inv_mu_def init_def)

lemma inv_miss_step:
  assumes "inv_miss pol s" "inv_mu s" "never_stale s"
  shows "inv_miss pol (Retrieve_step remote pol t s)"
proof (cases "pcs s t")
  case (AtSet v)
  then have "\<not> fetching (pcs s u)" if "u \<noteq> t" for u
    using holder_unique [OF assms(2) _ that, of ] fetching_critical by fastforce
  with AtSet show ?thesis
    by (auto simp: inv_miss_def step_simps)
next
  case AtGet2
  with assms show ?thesis
    by (auto simp: inv_miss_def step_simps Get_live split: option.splits)
qed (use assms in \<open>auto simp: inv_miss_def step_simps split: option.splits sum.splits\<close>)


lemma step_posted:
  "posted (shared (Retrieve_step remote pol t s)) =
     (if pcs s t = AtCall then posted (shared s) @ [\<lparr>Policy = pol t\<rparr>] else posted (shared s))"
  by (cases "pcs s t") (auto simp: step_simps split: option.splits sum.splits)

lemma step_items:
  "items (cache (shared (Retrieve_step remote pol t s))) =
     (case pcs s t of
        AtSet v \<Rightarrow> (items (cache (shared s)))
                      (PolicyRuleId (pol t) \<mapsto> \<lparr>Object = v, Inserted = now (shared s)\<rparr>)
      | _ \<Rightarrow> items (cache (shared s)))"
  by (cases "pcs s t") (auto simp: step_simps split: option.splits sum.splits)

lemma step_clock:
  "now (shared (Retrieve_step remote pol t s)) = now (shared s)"
  "ttl (cache (shared (Retrieve_step remote pol t s))) = ttl (cache (shared s))"
  by (cases "pcs s t"; auto simp: step_simps cache_Set_def split: option.splits sum.splits)+

lemma step_pcs_self:
  "pcs (Retrieve_step remote pol t s) t =
     (case pcs s t of
        AtGet1 \<Rightarrow> (case cache_Get (cache (shared s)) (now (shared s)) (PolicyRuleId (pol t)) of
                     Some v \<Rightarrow> Returned (v, None) | None \<Rightarrow> AtLock)
      | AtLock \<Rightarrow> (if mu s = None then AtGet2 else AtLock)
      | AtGet2 \<Rightarrow> (case cache_Get (cache (shared s)) (now (shared s)) (PolicyRuleId (pol t)) of
                     Some v \<Rightarrow> AtUnlock (v, None) | None \<Rightarrow> AtCall)
      | AtCall \<Rightarrow> InFlight (remote (length (posted (shared s))) \<lparr>Policy = pol t\<rparr>)
      | InFlight out \<Rightarrow>
          (case callEnrich_resp out of
             Inl err \<Rightarrow> AtUnlock (0, Some (Errorf ''failed to fetch metadata: %w'' [W err]))
           | Inr r \<Rightarrow> AtSet (Compliance r))
      | AtSet v \<Rightarrow> AtUnlock (v, None)
      | AtUnlock r \<Rightarrow> Returned r
      | Returned r \<Rightarrow> Returned r)"
  by (cases "pcs s t") (auto simp: step_simps split: option.splits sum.splits)

lemma inv_flight_step:
  assumes "inv_flight remote pol s" "inv_mu s"
  shows "inv_flight remote pol (Retrieve_step remote pol t s)"
  unfolding inv_flight_def
proof (intro allI impI)
  fix u out
  assume a: "pcs (Retrieve_step remote pol t s) u = InFlight out"
  show "\<exists>ps. posted (shared (Retrieve_step remote pol t s)) = ps @ [\<lparr>Policy = pol u\<rparr>]
             \<and> out = remote (length ps) \<lparr>Policy = pol u\<rparr>"
  proof (cases "u = t")
    case True
    with a have "pcs s t = AtCall \<and> out = remote (length (posted (shared s))) \<lparr>Policy = pol t\<rparr>"
      by (auto simp: step_pcs_self split: pc.splits option.splits sum.splits if_splits)
    with True show ?thesis by (simp add: step_posted)
  next
    case False
    with a have u: "pcs s u = InFlight out" by (simp add: step_pcs_other)
    then have "pcs s t \<noteq> AtCall"
      using holder_unique [OF assms(2), of u t] False by auto
    with u assms(1) show ?thesis
      by (simp add: step_posted inv_flight_def)
  qed
qed

lemma inv_set_step:
  assumes "inv_set remote pol s" "inv_flight remote pol s" "inv_mu s"
  shows "inv_set remote pol (Retrieve_step remote pol t s)"
  unfolding inv_set_def
proof (intro allI impI)
  fix u v
  assume a: "pcs (Retrieve_step remote pol t s) u = AtSet v"
  show "\<exists>ps. posted (shared (Retrieve_step remote pol t s)) = ps @ [\<lparr>Policy = pol u\<rparr>]
             \<and> callEnrich_resp (remote (length ps) \<lparr>Policy = pol u\<rparr>) = Inr \<lparr>Compliance = v\<rparr>"
  proof (cases "u = t")
    case True
    with a obtain out r where o: "pcs s t = InFlight out" "callEnrich_resp out = Inr r" "v = Compliance r"
      by (auto simp: step_pcs_self split: pc.splits option.splits sum.splits if_splits)
    from assms(2) o(1) obtain ps where "posted (shared s) = ps @ [\<lparr>Policy = pol t\<rparr>]"
      "out = remote (length ps) \<lparr>Policy = pol t\<rparr>"
      by (auto simp: inv_flight_def)
    with o True show ?thesis by (simp add: step_posted)
  next
    case False
    with a have u: "pcs s u = AtSet v" by (simp add: step_pcs_other)
    then have "pcs s t \<noteq> AtCall"
      using holder_unique [OF assms(3), of u t] False by auto
    with u assms(1) show ?thesis
      by (simp add: step_posted inv_set_def)
  qed
qed


lemma fetch_ok_step:
  assumes "fetch_ok remote (shared (Retrieve_step remote pol t s)) n v"
  shows "fetch_ok remote (shared s) n v
         \<or> (pcs s t = AtCall \<and> n = length (posted (shared s))
             \<and> callEnrich_resp (remote n \<lparr>Policy = pol t\<rparr>) = Inr \<lparr>Compliance = v\<rparr>)"
  using assms
  by (auto simp: fetch_ok_def step_posted nth_append split: if_splits)

lemma fetch_ok_mono:
  assumes "fetch_ok remote (shared s) n v"
  shows "fetch_ok remote (shared (Retrieve_step remote pol t s)) n v"
    and "posted (shared (Retrieve_step remote pol t s)) ! n = posted (shared s) ! n"
  using assms by (auto simp: fetch_ok_def step_posted nth_append)

lemma stored_step:
  "stored (shared (Retrieve_step remote pol t s)) k v \<longleftrightarrow>
     (case pcs s t of
        AtSet x \<Rightarrow> if k = PolicyRuleId (pol t) then v = x else stored (shared s) k v
      | _ \<Rightarrow> stored (shared s) k v)"
  by (cases "pcs s t") (auto simp: stored_def step_items)

lemma inv_ok_step:
  assumes ok: "inv_ok remote pol s" and fl: "inv_flight remote pol s"
    and st: "inv_set remote pol s" and mu: "inv_mu s" and miss: "inv_miss pol s"
  shows "inv_ok remote pol (Retrieve_step remote pol t s)"
  unfolding inv_ok_def
proof (intro allI impI)
  fix n v
  let ?s' = "Retrieve_step remote pol t s"
  assume a: "fetch_ok remote (shared ?s') n v"
  let ?goal = "stored (shared ?s') (PolicyRuleId (Policy (posted (shared ?s') ! n))) v
     \<or> (Suc n = length (posted (shared ?s'))
         \<and> (\<exists>u. pcs ?s' u = InFlight (remote n (posted (shared ?s') ! n)) \<or> pcs ?s' u = AtSet v))"
  from fetch_ok_step [OF a] show ?goal
  proof
    assume new: "pcs s t = AtCall \<and> n = length (posted (shared s))
       \<and> callEnrich_resp (remote n \<lparr>Policy = pol t\<rparr>) = Inr \<lparr>Compliance = v\<rparr>"
    then have "pcs ?s' t = InFlight (remote n (posted (shared ?s') ! n))"
      by (simp add: step_pcs_self step_posted)
    moreover from new have "Suc n = length (posted (shared ?s'))"
      by (simp add: step_posted)
    ultimately show ?goal by blast
  next
    assume old: "fetch_ok remote (shared s) n v"
    note same = fetch_ok_mono(2) [OF old, of pol t]
    let ?k = "PolicyRuleId (Policy (posted (shared s) ! n))"
    from ok old have "stored (shared s) ?k v
        \<or> (Suc n = length (posted (shared s))
            \<and> (\<exists>u. pcs s u = InFlight (remote n (posted (shared s) ! n)) \<or> pcs s u = AtSet v))"
      by (simp add: inv_ok_def)
    then show ?goal
    proof
      assume sd: "stored (shared s) ?k v"
      have "stored (shared ?s') ?k v"
      proof (cases "pcs s t")
        case (AtSet x)
        with miss have "items (cache (shared s)) (PolicyRuleId (pol t)) = None"
          by (auto simp: inv_miss_def)
        with sd have "?k \<noteq> PolicyRuleId (pol t)"
          by (auto simp: stored_def)
        with sd AtSet show ?thesis by (simp add: stored_step)
      qed (use sd in \<open>simp_all add: stored_step\<close>)
      then show ?goal by (simp add: same)
    next
      assume last: "Suc n = length (posted (shared s))
            \<and> (\<exists>u. pcs s u = InFlight (remote n (posted (shared s) ! n)) \<or> pcs s u = AtSet v)"
      then obtain u where u: "pcs s u = InFlight (remote n (posted (shared s) ! n)) \<or> pcs s u = AtSet v"
        by blast
      then have cu: "critical (pcs s u)" by auto
      show ?goal
      proof (cases "u = t")
        case False
        then have "\<not> critical (pcs s t)"
          using holder_unique [OF mu cu, of t] by auto
        then have "pcs s t \<noteq> AtCall" by auto
        with last have "Suc n = length (posted (shared ?s'))"
          by (simp add: step_posted)
        moreover from u False have
          "pcs ?s' u = InFlight (remote n (posted (shared ?s') ! n)) \<or> pcs ?s' u = AtSet v"
          by (simp add: step_pcs_other same)
        ultimately show ?thesis by blast
      next
        case True
        from u show ?thesis
        proof
          assume f: "pcs s u = InFlight (remote n (posted (shared s) ! n))"
          from old have "callEnrich_resp (remote n (posted (shared s) ! n)) = Inr \<lparr>Compliance = v\<rparr>"
            by (simp add: fetch_ok_def)
          with f True have "pcs ?s' t = AtSet v"
            by (simp add: step_pcs_self)
          moreover from f True last have "Suc n = length (posted (shared ?s'))"
            by (simp add: step_posted)
          ultimately show ?thesis by blast
        next
          assume f: "pcs s u = AtSet v"
          with st True obtain ps where ps: "posted (shared s) = ps @ [\<lparr>Policy = pol t\<rparr>]"
            by (auto simp: inv_set_def)
          with last have "n = length ps" by simp
          with ps have "?k = PolicyRuleId (pol t)" by simp
          with f True have "stored (shared ?s') ?k v"
            by (simp add: stored_step)
          then show ?thesis by (simp add: same)
        qed
      qed
    qed
  qed
qed


lemma no_ok_fetch_while_calling:
  assumes ok: "inv_ok remote pol s" and mu: "inv_mu s" and miss: "inv_miss pol s"
    and t: "pcs s t = AtCall" and f: "fetch_ok remote (shared s) m v"
    and k: "PolicyRuleId (Policy (posted (shared s) ! m)) = PolicyRuleId (pol t)"
  shows False
proof -
  from miss t have none: "items (cache (shared s)) (PolicyRuleId (pol t)) = None"
    by (auto simp: inv_miss_def)
  from ok f have "stored (shared s) (PolicyRuleId (Policy (posted (shared s) ! m))) v
      \<or> (\<exists>u. pcs s u = InFlight (remote m (posted (shared s) ! m)) \<or> pcs s u = AtSet v)"
    by (auto simp: inv_ok_def)
  then show False
  proof
    assume "stored (shared s) (PolicyRuleId (Policy (posted (shared s) ! m))) v"
    with k none show False by (simp add: stored_def)
  next
    assume "\<exists>u. pcs s u = InFlight (remote m (posted (shared s) ! m)) \<or> pcs s u = AtSet v"
    then obtain u where u: "pcs s u = InFlight (remote m (posted (shared s) ! m)) \<or> pcs s u = AtSet v"
      by blast
    then have "critical (pcs s u)" by auto
    moreover from u t have "t \<noteq> u" by auto
    ultimately have "\<not> critical (pcs s t)"
      using holder_unique [OF mu, of u t] by blast
    with t show False by simp
  qed
qed

lemma inv_uniq_step:
  assumes uq: "inv_uniq remote s" and ok: "inv_ok remote pol s" and mu: "inv_mu s"
    and miss: "inv_miss pol s"
  shows "inv_uniq remote (Retrieve_step remote pol t s)"
  unfolding inv_uniq_def
proof (intro allI impI, elim conjE)
  fix m n v v'
  let ?s' = "Retrieve_step remote pol t s"
  assume m: "fetch_ok remote (shared ?s') m v" and n: "fetch_ok remote (shared ?s') n v'"
    and k: "PolicyRuleId (Policy (posted (shared ?s') ! m))
            = PolicyRuleId (Policy (posted (shared ?s') ! n))"
  have new_key: "PolicyRuleId (Policy (posted (shared ?s') ! i)) = PolicyRuleId (pol t)"
    if "pcs s t = AtCall" "i = length (posted (shared s))" for i
    using that by (simp add: step_posted)
  from fetch_ok_step [OF m] fetch_ok_step [OF n] show "m = n"
  proof (elim disjE)
    assume om: "fetch_ok remote (shared s) m v" and on: "fetch_ok remote (shared s) n v'"
    with k uq show ?thesis
      by (simp add: fetch_ok_mono(2) inv_uniq_def) blast
  next
    assume om: "fetch_ok remote (shared s) m v"
      and nn: "pcs s t = AtCall \<and> n = length (posted (shared s))
               \<and> callEnrich_resp (remote n \<lparr>Policy = pol t\<rparr>) = Inr \<lparr>Compliance = v'\<rparr>"
    with k have "PolicyRuleId (Policy (posted (shared s) ! m)) = PolicyRuleId (pol t)"
      by (simp add: new_key fetch_ok_mono(2) [OF om])
    with no_ok_fetch_while_calling [OF ok mu miss _ om] nn show ?thesis by blast
  next
    assume on: "fetch_ok remote (shared s) n v'"
      and nm: "pcs s t = AtCall \<and> m = length (posted (shared s))
               \<and> callEnrich_resp (remote m \<lparr>Policy = pol t\<rparr>) = Inr \<lparr>Compliance = v\<rparr>"
    with k have "PolicyRuleId (Policy (posted (shared s) ! n)) = PolicyRuleId (pol t)"
      by (simp add: new_key fetch_ok_mono(2) [OF on])
    with no_ok_fetch_while_calling [OF ok mu miss _ on] nm show ?thesis by blast
  qed simp
qed

lemma inv_ret_step:
  assumes ret: "inv_ret pol s" and miss: "inv_miss pol s" and live: "never_stale s"
  shows "inv_ret pol (Retrieve_step remote pol t s)"
  unfolding inv_ret_def
proof (intro allI impI)
  fix u v
  let ?s' = "Retrieve_step remote pol t s"
  assume a: "pcs ?s' u = AtUnlock (v, None) \<or> pcs ?s' u = Returned (v, None)"
  show "stored (shared ?s') (PolicyRuleId (pol u)) v"
  proof (cases "u = t")
    case False
    with a have "pcs s u = AtUnlock (v, None) \<or> pcs s u = Returned (v, None)"
      by (simp add: step_pcs_other)
    with ret have sd: "stored (shared s) (PolicyRuleId (pol u)) v"
      unfolding inv_ret_def by blast
    show ?thesis
    proof (cases "pcs s t")
      case (AtSet x)
      with miss have "items (cache (shared s)) (PolicyRuleId (pol t)) = None"
        by (auto simp: inv_miss_def)
      with sd have "PolicyRuleId (pol u) \<noteq> PolicyRuleId (pol t)"
        by (auto simp: stored_def)
      with sd AtSet show ?thesis by (simp add: stored_step)
    qed (use sd in \<open>simp_all add: stored_step\<close>)
  next
    case True
    show ?thesis
    proof (cases "pcs s t")
      case AtGet1
      with a True show ?thesis
        by (auto simp: step_pcs_self stored_step Get_live(2) [OF live, symmetric]
            split: option.splits)
    next
      case AtGet2
      with a True show ?thesis
        by (auto simp: step_pcs_self stored_step Get_live(2) [OF live, symmetric]
            split: option.splits)
    next
      case (InFlight out)
      with a True show ?thesis
        by (auto simp: step_pcs_self split: sum.splits)
    next
      case (AtSet x)
      with a True show ?thesis
        by (auto simp: step_pcs_self stored_step)
    next
      case (AtUnlock r)
      with a True ret show ?thesis
        by (auto simp: step_pcs_self stored_step inv_ret_def)
    next
      case (Returned r)
      with a True ret show ?thesis
        by (auto simp: step_pcs_self stored_step inv_ret_def)
    qed (use a True in \<open>auto simp: step_pcs_self split: if_splits\<close>)
  qed
qed

lemma inv_src_step:
  assumes src: "inv_src remote s" and st: "inv_set remote pol s"
  shows "inv_src remote (Retrieve_step remote pol t s)"
  unfolding inv_src_def
proof (intro allI impI)
  fix k v
  let ?s' = "Retrieve_step remote pol t s"
  assume a: "stored (shared ?s') k v"
  have old: "\<exists>n. fetch_ok remote (shared ?s') n v
               \<and> PolicyRuleId (Policy (posted (shared ?s') ! n)) = k"
    if "stored (shared s) k v"
  proof -
    from src that obtain n where "fetch_ok remote (shared s) n v"
      "PolicyRuleId (Policy (posted (shared s) ! n)) = k"
      by (auto simp: inv_src_def)
    with fetch_ok_mono [of remote s n v pol t] show ?thesis by auto
  qed
  show "\<exists>n. fetch_ok remote (shared ?s') n v
            \<and> PolicyRuleId (Policy (posted (shared ?s') ! n)) = k"
  proof (cases "pcs s t")
    case (AtSet x)
    show ?thesis
    proof (cases "k = PolicyRuleId (pol t)")
      case True
      with a AtSet have vx: "v = x" by (simp add: stored_step)
      from st AtSet obtain ps where ps: "posted (shared s) = ps @ [\<lparr>Policy = pol t\<rparr>]"
        "callEnrich_resp (remote (length ps) \<lparr>Policy = pol t\<rparr>) = Inr \<lparr>Compliance = x\<rparr>"
        by (auto simp: inv_set_def)
      then have "fetch_ok remote (shared s) (length ps) x"
        "PolicyRuleId (Policy (posted (shared s) ! length ps)) = k"
        using True by (simp_all add: fetch_ok_def)
      with fetch_ok_mono [of remote s "length ps" x pol t] vx show ?thesis by auto
    next
      case False
      with a AtSet old show ?thesis by (simp add: stored_step)
    qed
  qed (use a old in \<open>simp_all add: stored_step\<close>)
qed


lemma elapsed_snoc: "elapsed (es @ [e]) = elapsed es + (case e of Tick d \<Rightarrow> d | _ \<Rightarrow> 0)"
  by (induction es rule: elapsed.induct) (auto split: event.splits)

lemma dedup_inv_step:
  assumes "dedup_inv remote pol s" "never_stale s"
  shows "dedup_inv remote pol (Retrieve_step remote pol t s)"
  using assms unfolding dedup_inv_def
  by (simp add: inv_mu_step inv_miss_step inv_flight_step inv_set_step inv_ok_step
      inv_uniq_step inv_ret_step inv_src_step)

lemma DeleteExpired_live:
  assumes "never_stale s"
  shows "DeleteExpired (cache (shared s)) (now (shared s)) = cache (shared s)"
proof -
  have "(\<lambda>k. case items (cache (shared s)) k of None \<Rightarrow> None
            | Some it \<Rightarrow> if expired (cache (shared s)) (now (shared s)) it then None else Some it)
        = items (cache (shared s))"
    using assms by (auto simp: never_stale_def split: option.splits)
  then show ?thesis by (simp add: DeleteExpired_def)
qed

lemma dedup_inv_fire:
  assumes "dedup_inv remote pol s" "never_stale s"
  shows "dedup_inv remote pol (fire (Retrieve_step remote pol) s e)"
proof (cases e)
  case (Run t)
  with assms show ?thesis by (simp add: fire_def dedup_inv_step)
next
  case (Tick d)
  with assms show ?thesis
    by (simp add: fire_def dedup_inv_def inv_mu_def inv_miss_def inv_flight_def inv_set_def
        inv_ok_def inv_uniq_def inv_ret_def inv_src_def fetch_ok_def stored_def)
next
  case Sweep
  with assms show ?thesis by (simp add: fire_def DeleteExpired_live)
qed

lemma inv_time_fire:
  assumes "inv_time T t0 d s"
  shows "inv_time T t0 (d + (case e of Tick x \<Rightarrow> x | _ \<Rightarrow> 0)) (fire (Retrieve_step remote pol) s e)"
proof (cases e)
  case (Run t)
  with assms show ?thesis
    by (cases "pcs s t") (auto simp: fire_def inv_time_def step_clock step_items)
next
  case (Tick x)
  with assms show ?thesis by (simp add: fire_def inv_time_def)
next
  case Sweep
  with assms show ?thesis 
    by (auto simp: fire_def inv_time_def DeleteExpired_def expired_def split: option.splits if_splits)
qed

lemma never_stale_time:
  assumes "inv_time T t0 d s" "T < 1 \<or> int d \<le> T"
  shows "never_stale s"
  using assms by (fastforce simp: inv_time_def never_stale_def expired_def)

lemma dedup_inv_init: "dedup_inv remote pol (init (fresh T t0))"
  by (simp add: dedup_inv_def inv_mu_def inv_miss_def inv_flight_def inv_set_def
        inv_ok_def inv_uniq_def inv_ret_def inv_src_def fetch_ok_def stored_def
        init_def fresh_def NewCacheableClient_def cache_New_def Let_def)

lemma inv_time_init: "inv_time T t0 0 (init (fresh T t0))"
  by (simp add: inv_time_def init_def fresh_def NewCacheableClient_def cache_New_def Let_def)

lemma reach:
  "T < 1 \<or> int (elapsed sched) \<le> T \<Longrightarrow>
     dedup_inv remote pol (run (Retrieve_step remote pol) sched (init (fresh T t0)))
     \<and> inv_time T t0 (elapsed sched) (run (Retrieve_step remote pol) sched (init (fresh T t0)))"
proof (induction sched rule: rev_induct)
  case Nil
  show ?case by (simp add: run_Nil dedup_inv_init inv_time_init)
next
  case (snoc e sched)
  let ?s = "run (Retrieve_step remote pol) sched (init (fresh T t0))"
  from snoc.prems have b: "T < 1 \<or> int (elapsed sched) \<le> T"
    by (auto simp: elapsed_snoc)
  with snoc.IH have ih: "dedup_inv remote pol ?s" "inv_time T t0 (elapsed sched) ?s"
    by simp_all
  from never_stale_time [OF ih(2) b] have "never_stale ?s" .
  with ih show ?case
    by (simp add: run_snoc elapsed_snoc dedup_inv_fire inv_time_fire)
qed

lemma run_Cons: "run stepf (Run t # es) s = run stepf es (stepf t s)"
  by (simp add: run_def fire_def)

lemma seven: "replicate 7 x = [x, x, x, x, x, x, x]"
  by (simp add: numeral_eq_Suc)

text \<open>A caller that runs alone, from a state with the lock free, performs the call
  \<open>Retrieve\<close> of the single-caller model.\<close>

lemma solo:
  assumes "pcs s t = AtGet1" "mu s = None"
  shows "pcs (run (Retrieve_step remote pol) (replicate 7 (Run t)) s) t
           = Returned (fst (Retrieve remote (shared s) (pol t)))
       \<and> shared (run (Retrieve_step remote pol) (replicate 7 (Run t)) s)
           = snd (Retrieve remote (shared s) (pol t))
       \<and> mu (run (Retrieve_step remote pol) (replicate 7 (Run t)) s) = None"
proof (cases "cache_Get (cache (shared s)) (now (shared s)) (PolicyRuleId (pol t))")
  case (Some v)
  with assms show ?thesis
    by (simp add: seven run_Cons run_Nil step_simps Retrieve_hit)
next
  case None
  show ?thesis
  proof (cases "callEnrich_resp (remote (length (posted (shared s))) \<lparr>Policy = pol t\<rparr>)")
    case (Inl err)
    with None assms show ?thesis
      by (simp add: seven run_Cons run_Nil step_simps Retrieve_miss)
  next
    case (Inr r)
    with None assms show ?thesis
      by (simp add: seven run_Cons run_Nil step_simps Retrieve_miss)
  qed
qed

lemma solo_p0:
  assumes "pcs s t = AtGet1" "mu s = None"
  shows "pcs (run (Retrieve_p0_step remote pol) (replicate 7 (Run t)) s) t
           = Returned (fst (Retrieve_p0 remote (shared s) (pol t)))
       \<and> shared (run (Retrieve_p0_step remote pol) (replicate 7 (Run t)) s)
           = snd (Retrieve_p0 remote (shared s) (pol t))
       \<and> mu (run (Retrieve_p0_step remote pol) (replicate 7 (Run t)) s) = None"
proof (cases "cache_Get (cache (shared s)) (now (shared s)) (PolicyRuleId (pol t))")
  case (Some v)
  with assms show ?thesis
    by (simp add: seven run_Cons run_Nil Retrieve_p0_step_def Retrieve_p0_hit)
next
  case None
  show ?thesis
  proof (cases "callEnrich_p0_resp (remote (length (posted (shared s))) \<lparr>Policy = pol t\<rparr>)")
    case (Inl err)
    with None assms show ?thesis
      by (simp add: seven run_Cons run_Nil Retrieve_p0_step_def Retrieve_p0_miss
          fetchMetadata_p0_resp_def PostV1Enrich_def Let_def)
  next
    case (Inr r)
    with None assms show ?thesis
      by (simp add: seven run_Cons run_Nil Retrieve_p0_step_def Retrieve_p0_miss
          fetchMetadata_p0_resp_def PostV1Enrich_def Let_def)
  qed
qed

lemma at_most_one_index:
  assumes "\<And>i j. i < length xs \<Longrightarrow> j < length xs \<Longrightarrow> P (xs ! i) \<Longrightarrow> P (xs ! j) \<Longrightarrow> i = j"
  shows "length (filter P xs) \<le> 1"
  using assms
proof (induction xs)
  case Nil
  then show ?case by simp
next
  case (Cons x xs)
  have ih: "length (filter P xs) \<le> 1"
  proof (rule Cons.IH)
    fix i j
    assume "i < length xs" "j < length xs" "P (xs ! i)" "P (xs ! j)"
    with Cons.prems [of "Suc i" "Suc j"] show "i = j" by simp
  qed
  show ?case
  proof (cases "P x")
    case False
    with ih show ?thesis by simp
  next
    case True
    have "\<not> P y" if "y \<in> set xs" for y
    proof
      assume "P y"
      from that obtain j where "j < length xs" "xs ! j = y"
        by (auto simp: in_set_conv_nth)
      with Cons.prems [of 0 "Suc j"] True \<open>P y\<close> show False by simp
    qed
    then have "filter P xs = []" by (simp add: filter_empty_conv)
    with True show ?thesis by simp
  qed
qed

lemma in_flight_unique:
  assumes "inv_mu s" "pcs s t = InFlight out" "pcs s u = InFlight out'"
  shows "t = u"
proof (rule ccontr)
  assume "t \<noteq> u"
  with holder_unique [OF assms(1), of t u] assms(2,3) show False by simp
qed

text \<open>
  C1, amended. At any instant at most one caller has a request in flight, in both
  copies of the client: the fetch runs under the lock. In cacheable.go, while no stored
  entry expires (the TTL is a never-expire one, below one nanosecond, or the schedule
  lasts no longer than the TTL): at most one fetch per key is answered with a success,
  so a key none of whose fetches failed has been fetched at most once; a caller that
  has returned without error returns the value of a successful fetch for its key; and
  two callers that have returned without error for the same key have returned the same
  value. A failed fetch is not cached, so after it a caller that waited for the lock
  fetches again.
\<close>

theorem Retrieve_concurrent_fetches:
  "(pcs (callers remote pol T t0 sched) t = InFlight out
      \<and> pcs (callers remote pol T t0 sched) u = InFlight out' \<longrightarrow> t = u)
   \<and> (pcs (callers_p0 remote pol T t0 sched) t = InFlight out
      \<and> pcs (callers_p0 remote pol T t0 sched) u = InFlight out' \<longrightarrow> t = u)
   \<and> (T < 1 \<or> int (elapsed sched) \<le> T \<longrightarrow>
        (fetch_ok remote (shared (callers remote pol T t0 sched)) m v
           \<and> fetch_ok remote (shared (callers remote pol T t0 sched)) n v'
           \<and> PolicyRuleId (Policy (posted (shared (callers remote pol T t0 sched)) ! m))
               = PolicyRuleId (Policy (posted (shared (callers remote pol T t0 sched)) ! n))
         \<longrightarrow> m = n)
      \<and> ((\<forall>i. i < length (posted (shared (callers remote pol T t0 sched)))
                \<and> PolicyRuleId (Policy (posted (shared (callers remote pol T t0 sched)) ! i)) = k
              \<longrightarrow> (\<exists>x. fetch_ok remote (shared (callers remote pol T t0 sched)) i x))
         \<longrightarrow> length (filter (\<lambda>r. PolicyRuleId (Policy r) = k)
                        (posted (shared (callers remote pol T t0 sched)))) \<le> 1)
      \<and> (pcs (callers remote pol T t0 sched) t = Returned (v, None)
         \<longrightarrow> (\<exists>i. fetch_ok remote (shared (callers remote pol T t0 sched)) i v
                  \<and> PolicyRuleId (Policy (posted (shared (callers remote pol T t0 sched)) ! i))
                      = PolicyRuleId (pol t)))
      \<and> (pcs (callers remote pol T t0 sched) t = Returned (v, None)
           \<and> pcs (callers remote pol T t0 sched) u = Returned (v', None)
           \<and> PolicyRuleId (pol t) = PolicyRuleId (pol u)
         \<longrightarrow> v = v'))"
proof (intro conjI impI)
  let ?s = "callers remote pol T t0 sched"
  have mu: "inv_mu ?s"
    unfolding callers_def by (rule inv_mu_run [OF inv_mu_step inv_mu_init])
  have mu0: "inv_mu (callers_p0 remote pol T t0 sched)"
    unfolding callers_p0_def by (rule inv_mu_run [OF inv_mu_p0_step inv_mu_init])
  {
    assume "pcs ?s t = InFlight out \<and> pcs ?s u = InFlight out'"
    with in_flight_unique [OF mu] show "t = u" by blast
  next
    assume "pcs (callers_p0 remote pol T t0 sched) t = InFlight out
            \<and> pcs (callers_p0 remote pol T t0 sched) u = InFlight out'"
    with in_flight_unique [OF mu0] show "t = u" by blast
  }
  assume within: "T < 1 \<or> int (elapsed sched) \<le> T"
  from reach [OF within, of remote pol t0] have inv: "dedup_inv remote pol ?s"
    by (simp add: callers_def)
  then have uq: "inv_uniq remote ?s" and ret: "inv_ret pol ?s" and src: "inv_src remote ?s"
    by (simp_all add: dedup_inv_def)
  {
    assume "fetch_ok remote (shared ?s) m v \<and> fetch_ok remote (shared ?s) n v'
           \<and> PolicyRuleId (Policy (posted (shared ?s) ! m))
               = PolicyRuleId (Policy (posted (shared ?s) ! n))"
    with uq show "m = n" unfolding inv_uniq_def by blast
  next
    assume all_ok: "\<forall>i. i < length (posted (shared ?s))
                \<and> PolicyRuleId (Policy (posted (shared ?s) ! i)) = k
              \<longrightarrow> (\<exists>x. fetch_ok remote (shared ?s) i x)"
    show "length (filter (\<lambda>r. PolicyRuleId (Policy r) = k) (posted (shared ?s))) \<le> 1"
    proof (rule at_most_one_index)
      fix i j
      assume "i < length (posted (shared ?s))" "j < length (posted (shared ?s))"
        "PolicyRuleId (Policy (posted (shared ?s) ! i)) = k"
        "PolicyRuleId (Policy (posted (shared ?s) ! j)) = k"
      with all_ok obtain x y where "fetch_ok remote (shared ?s) i x"
        "fetch_ok remote (shared ?s) j y"
        "PolicyRuleId (Policy (posted (shared ?s) ! i))
           = PolicyRuleId (Policy (posted (shared ?s) ! j))"
        by metis
      with uq show "i = j" unfolding inv_uniq_def by blast
    qed
  next
    assume "pcs ?s t = Returned (v, None)"
    with ret have "stored (shared ?s) (PolicyRuleId (pol t)) v"
      unfolding inv_ret_def by blast
    with src show "\<exists>i. fetch_ok remote (shared ?s) i v
                  \<and> PolicyRuleId (Policy (posted (shared ?s) ! i)) = PolicyRuleId (pol t)"
      unfolding inv_src_def by blast
  next
    assume a: "pcs ?s t = Returned (v, None) \<and> pcs ?s u = Returned (v', None)
           \<and> PolicyRuleId (pol t) = PolicyRuleId (pol u)"
    with ret have "stored (shared ?s) (PolicyRuleId (pol t)) v"
      unfolding inv_ret_def by blast
    moreover from a ret have "stored (shared ?s) (PolicyRuleId (pol u)) v'"
      unfolding inv_ret_def by blast
    ultimately show "v = v'" using a by (auto simp: stored_def)
  }
qed

lemmas run_defs = callers_def callers_p0_def run_def fire_def Retrieve_step_def
  Retrieve_p0_step_def init_def goto_def one_returned_def two_callers_def every_caller_def
  late_second_caller_def posting_p0_def posting_def
  PostV1Enrich_def logger_Debug_def logger_Error_def callEnrich_resp_def callEnrich_p0_resp_def
  fetchMetadata_p0_resp_def

lemma steady_run:
  "pcs (callers steady_remote every_caller NoExpiration 0 two_callers) 0 = Returned (7, None)"
  "pcs (callers steady_remote every_caller NoExpiration 0 two_callers) 1 = Returned (7, None)"
  "posted (shared (callers steady_remote every_caller NoExpiration 0 two_callers))
     = [\<lparr>Policy = demo_policy\<rparr>]"
  by (simp_all add: run_defs store_defs demo_defs)

text \<open>With a TTL of one nanosecond the entry that caller 0 stored has expired when
  caller 1 re-checks five nanoseconds later, and caller 1 fetches again.\<close>

lemma Retrieve_refetches_after_expiry:
  "posted (shared (callers steady_remote every_caller 1 0 late_second_caller))
     = [\<lparr>Policy = demo_policy\<rparr>, \<lparr>Policy = demo_policy\<rparr>]
   \<and> pcs (callers steady_remote every_caller 1 0 late_second_caller) 0 = Returned (7, None)
   \<and> pcs (callers steady_remote every_caller 1 0 late_second_caller) 1 = Returned (7, None)"
  by (simp add: run_defs store_defs demo_defs)

lemma posting_run:
  "pcs (callers steady_remote every_caller NoExpiration 0 posting) 0 = InFlight (answer 7)"
  "pcs (callers_p0 steady_remote every_caller NoExpiration 0 posting_p0) 0
     = InFlight (answer 7)"
  by (simp_all add: run_defs store_defs steady_remote_def)

text \<open>
  C1, as stated, fails on cacheable.go: when the first fetch fails nothing is cached,
  so the second of two concurrent callers finds nothing at its re-check and fetches
  again. Two requests are posted for the one key; caller 0 returns the error and caller
  1 the value 7.
\<close>

theorem Retrieve_refetches_after_failure:
  "posted (shared (callers flaky_remote every_caller NoExpiration 0 two_callers))
     = [\<lparr>Policy = demo_policy\<rparr>, \<lparr>Policy = demo_policy\<rparr>]
   \<and> pcs (callers flaky_remote every_caller NoExpiration 0 two_callers) 0
       = Returned (0, Some (Errorf ''failed to fetch metadata: %w''
                              [W (External ''connection refused'')]))
   \<and> pcs (callers flaky_remote every_caller NoExpiration 0 two_callers) 1
       = Returned (7, None)"
  by (simp add: run_defs store_defs demo_defs)

theorem Retrieve_concurrent_fetches_witness:
  "pcs (callers steady_remote every_caller NoExpiration 0 posting) 0 = InFlight (answer 7)
   \<and> pcs (callers_p0 steady_remote every_caller NoExpiration 0 posting_p0) 0
       = InFlight (answer 7)
   \<and> NoExpiration < 1
   \<and> pcs (callers steady_remote every_caller NoExpiration 0 two_callers) 0 = Returned (7, None)
   \<and> pcs (callers steady_remote every_caller NoExpiration 0 two_callers) 1 = Returned (7, None)
   \<and> PolicyRuleId (every_caller 0) = PolicyRuleId (every_caller 1)
   \<and> fetch_ok steady_remote
        (shared (callers steady_remote every_caller NoExpiration 0 two_callers)) 0 7
   \<and> length (filter (\<lambda>r. PolicyRuleId (Policy r) = ''rule-1'')
               (posted (shared (callers steady_remote every_caller NoExpiration 0 two_callers))))
       = 1"
proof -
  have h0: "NoExpiration < 1"
    by (simp add: NoExpiration_def)
  have k: "PolicyRuleId (every_caller 0) = PolicyRuleId (every_caller 1)"
    by (simp add: every_caller_def)
  have f: "fetch_ok steady_remote
        (shared (callers steady_remote every_caller NoExpiration 0 two_callers)) 0 7"
    by (simp add: fetch_ok_def steady_run demo_defs callEnrich_resp_def)
  have len: "length (filter (\<lambda>r. PolicyRuleId (Policy r) = ''rule-1'')
               (posted (shared (callers steady_remote every_caller NoExpiration 0 two_callers))))
       = 1"
    by (simp add: steady_run demo_defs)
  from Retrieve_concurrent_fetches
    [where remote = steady_remote and pol = every_caller and T = NoExpiration and ?t0.0 = 0
       and sched = two_callers and t = 0 and u = 1 and v = 7 and v' = 7 and m = 0 and n = 0
       and k = "''rule-1''"]
    Retrieve_concurrent_fetches
    [where remote = steady_remote and pol = every_caller and T = NoExpiration and ?t0.0 = 0
       and sched = posting and t = 0 and u = 0 and out = "answer 7" and out' = "answer 7"]
    Retrieve_concurrent_fetches
    [where remote = steady_remote and pol = every_caller and T = NoExpiration and ?t0.0 = 0
       and sched = posting_p0 and t = 0 and u = 0 and out = "answer 7" and out' = "answer 7"]
    h0 k f len steady_run posting_run
  show ?thesis by simp
qed

text \<open>
  C2 (evaluation of part_000). cacheable.go queries the store again once it holds the
  lock, and on a hit returns the stored value and posts nothing (\<open>recheck_hit\<close>
  below). part_000 goes from \<open>c.mu.Lock()\<close> straight to the fetch: after
  \<open>one_returned\<close> caller 1 waits for the free lock with 7 in the store under its key
  and one request posted; when it has run, a second request is posted. Under
  cacheable.go the same schedule posts one request.
\<close>

theorem Retrieve_p0_fetches_twice:
  "pcs (callers_p0 steady_remote every_caller NoExpiration 0 one_returned) 1 = AtLock
   \<and> mu (callers_p0 steady_remote every_caller NoExpiration 0 one_returned) = None
   \<and> cache_Get (cache (shared (callers_p0 steady_remote every_caller NoExpiration 0 one_returned)))
        (now (shared (callers_p0 steady_remote every_caller NoExpiration 0 one_returned)))
        (PolicyRuleId (every_caller 1)) = Some 7
   \<and> posted (shared (callers_p0 steady_remote every_caller NoExpiration 0 one_returned))
       = [\<lparr>Policy = demo_policy\<rparr>]
   \<and> posted (shared (callers_p0 steady_remote every_caller NoExpiration 0 two_callers))
       = [\<lparr>Policy = demo_policy\<rparr>, \<lparr>Policy = demo_policy\<rparr>]
   \<and> posted (shared (callers steady_remote every_caller NoExpiration 0 two_callers))
       = [\<lparr>Policy = demo_policy\<rparr>]"
  by (simp add: run_defs store_defs demo_defs)

lemma recheck_hit:
  assumes "pcs s t = AtGet2"
    and "cache_Get (cache (shared s)) (now (shared s)) (PolicyRuleId (pol t)) = Some v"
  shows "Retrieve_step remote pol t s = goto s t (AtUnlock (v, None))"
    and "Retrieve_step remote pol t (Retrieve_step remote pol t s)
           = goto (s\<lparr>mu := None\<rparr>) t (Returned (v, None))"
    and "posted (shared (Retrieve_step remote pol t (Retrieve_step remote pol t s)))
           = posted (shared s)"
  using assms by (simp_all add: step_simps goto_def)

end
